theory Spec2Isabelle
  imports Main "HOL-Library.Multiset" "HOL-Library.Sublist"
begin

section \<open>JapaneseStudy: data model\<close>

text \<open>
  The Python exceptions that the modelled functions can raise. None of them is caught
  by the session functions, so a raised exception is the \<open>Inl\<close> result of the model.
\<close>

datatype error =
    KeyError | ValueError | TypeError | IndexError | EOFError | StopIteration | UnboundLocalError

text \<open>
  A row of a content file as \<^verbatim>\<open>csv.DictReader\<close> yields it (\<^verbatim>\<open>Dict[str, str]\<close>):
  a partial map from column name to field. Reading a column that the row does not have
  raises \<^verbatim>\<open>KeyError\<close>.
\<close>

type_synonym row = "string \<rightharpoonup> string"

definition getitem :: "row \<Rightarrow> string \<Rightarrow> error + string" where
  "getitem d k = (case d k of None \<Rightarrow> Inl KeyError | Some v \<Rightarrow> Inr v)"

text \<open>
  \<^verbatim>\<open>MistakeReview\<close> (quiz_manager.py) has the four fields a quiz collects;
  \<^verbatim>\<open>Mistake\<close> (data_loader.py) is a row of the mistake file, which adds the count and
  the date. The review session works on either, so the second record extends the first.
  The count of a row is text in the file (\<open>string Mistake\<close>) and a number once
  \<^verbatim>\<open>load_mistakes\<close> has converted it (\<open>int Mistake\<close>).
\<close>

record MistakeReview =
  word :: string
  kana :: string
  correct_answer :: string
  user_answer :: string

record 'n Mistake = MistakeReview +
  mistake_count :: 'n
  last_mistake_date :: string

text \<open>What the program prints, as far as the properties below speak of it.\<close>

datatype event =
    FileNotFound string
  | Question nat string "string list"
  | ReviewQuestion nat string "string list"

text \<open>
  Everything outside the program: the files under \<^verbatim>\<open>data/\<close> (\<open>None\<close> for a file
  that does not exist), the lines typed by the user, the random generator as the stream
  of its future draws, the clock as the stream of the future readings of
  \<^verbatim>\<open>datetime.now().strftime(...)\<close>, and the printed events (latest last).
  The mistake file holds the rows below its header, each with the six columns that the
  program writes (\<^verbatim>\<open>word, kana, correct_answer, user_answer, mistake_count,
  last_mistake_date\<close>) as text; a file with another header, or with a row of another
  length, is not a state of this model. The progress file holds the rows of
  \<^verbatim>\<open>csv.reader\<close>, header included.
\<close>

record world =
  vocab_files :: "string \<rightharpoonup> row list"
  mistake_file :: "string Mistake list option"
  progress_file :: "string list list option"
  stdin :: "string list"
  rng :: "nat \<Rightarrow> nat"
  clock :: "nat \<Rightarrow> string"
  stdout :: "event list"

definition print :: "event \<Rightarrow> world \<Rightarrow> world" where
  "print e s = s\<lparr>stdout := stdout s @ [e]\<rparr>"

definition datetime_now :: "world \<Rightarrow> string \<times> world" where
  "datetime_now s = (clock s 0, s\<lparr>clock := (\<lambda>k. clock s (Suc k))\<rparr>)"

section \<open>Strings and numbers\<close>

text \<open>
  \<^verbatim>\<open>str.upper\<close>, \<^verbatim>\<open>str.lower\<close> and \<^verbatim>\<open>str.strip\<close> on the characters of the model,
  which are single bytes: the letters are the ASCII ones, and white space is what
  \<^verbatim>\<open>str.isspace\<close> accepts below code 256.
\<close>

definition upper_char :: "char \<Rightarrow> char" where
  "upper_char c =
     (case map_of (zip ''abcdefghijklmnopqrstuvwxyz'' ''ABCDEFGHIJKLMNOPQRSTUVWXYZ'') c of
        Some u \<Rightarrow> u | None \<Rightarrow> c)"

definition lower_char :: "char \<Rightarrow> char" where
  "lower_char c =
     (case map_of (zip ''ABCDEFGHIJKLMNOPQRSTUVWXYZ'' ''abcdefghijklmnopqrstuvwxyz'') c of
        Some l \<Rightarrow> l | None \<Rightarrow> c)"

definition upper :: "string \<Rightarrow> string" where
  "upper s = map upper_char s"

definition lower :: "string \<Rightarrow> string" where
  "lower s = map lower_char s"

definition isspace :: "char \<Rightarrow> bool" where
  "isspace c = ((of_char c :: nat) \<in> {9, 10, 11, 12, 13, 28, 29, 30, 31, 32, 133, 160})"

definition strip :: "string \<Rightarrow> string" where
  "strip s = rev (dropWhile isspace (rev (dropWhile isspace s)))"

definition ord :: "string \<Rightarrow> error + int" where
  "ord c = (case c of [ch] \<Rightarrow> Inr (int (of_char ch)) | _ \<Rightarrow> Inl TypeError)"

text \<open>
  \<^verbatim>\<open>int(text)\<close> on a string: white space around the numeral is dropped, one sign may
  come first, and the rest is decimal digits, where a single underscore may stand between
  two digits; anything else raises \<^verbatim>\<open>ValueError\<close>. \<open>decimal\<close> reads the digits, with
  the value so far and whether the character before was a digit. \<^verbatim>\<open>str(n)\<close> on an
  integer is its decimal numeral. Integers are unbounded; the ceiling that CPython puts
  on the length of a converted numeral (4300 digits unless configured otherwise) is not
  part of the model.
\<close>

definition digit_of :: "char \<Rightarrow> nat option" where
  "digit_of c = map_of (zip ''0123456789'' [0, 1, 2, 3, 4, 5, 6, 7, 8, 9]) c"

fun decimal :: "nat \<Rightarrow> bool \<Rightarrow> string \<Rightarrow> nat option" where
  "decimal acc after_digit [] = (if after_digit then Some acc else None)"
| "decimal acc after_digit (c # cs) =
     (if c = CHR ''_'' then (if after_digit \<and> cs \<noteq> [] then decimal acc False cs else None)
      else (case digit_of c of
              None \<Rightarrow> None
            | Some d \<Rightarrow> decimal (10 * acc + d) True cs))"

definition int_py :: "string \<Rightarrow> error + int" where
  "int_py text =
     (case strip text of
        [] \<Rightarrow> Inl ValueError
      | c # cs \<Rightarrow>
          (case (if c = CHR ''-'' \<or> c = CHR ''+'' then decimal 0 False cs
                 else decimal 0 False (c # cs)) of
             None \<Rightarrow> Inl ValueError
           | Some n \<Rightarrow> Inr (if c = CHR ''-'' then - int n else int n)))"

definition digit_char :: "nat \<Rightarrow> char" where
  "digit_char d = ''0123456789'' ! d"

fun digits :: "nat \<Rightarrow> string" where
  "digits n = (if n < 10 then [digit_char n] else digits (n div 10) @ [digit_char (n mod 10)])"

declare digits.simps [simp del]

definition str_int :: "int \<Rightarrow> string" where
  "str_int n = (if n < 0 then CHR ''-'' # digits (nat (- n)) else digits (nat n))"

section \<open>mistake\_tracker.py\<close>

definition MISTAKE_FILE :: string where
  "MISTAKE_FILE = ''data/mistakes.csv''"

text \<open>
  The loop of \<^verbatim>\<open>load_mistakes\<close> over the rows of \<^verbatim>\<open>csv.DictReader\<close>:
  \<^verbatim>\<open>mistake['mistake_count'] = int(mistake['mistake_count'])\<close> replaces the text of
  the count by its number, and raises \<^verbatim>\<open>ValueError\<close> at the first row whose count is
  not a numeral.
\<close>

fun read_mistakes :: "string Mistake list \<Rightarrow> error + int Mistake list" where
  "read_mistakes [] = Inr []"
| "read_mistakes (mistake # rest) =
     (case int_py (mistake_count mistake) of
        Inl e \<Rightarrow> Inl e
      | Inr n \<Rightarrow>
          (case read_mistakes rest of
             Inl e \<Rightarrow> Inl e
           | Inr user_mistakes \<Rightarrow>
               Inr (\<lparr>word = word mistake, kana = kana mistake,
                     correct_answer = correct_answer mistake,
                     user_answer = user_answer mistake,
                     mistake_count = n,
                     last_mistake_date = last_mistake_date mistake\<rparr> # user_mistakes)))"

text \<open>
  \<^verbatim>\<open>load_mistakes\<close>: the rows of the file; when the file is missing the
  \<^verbatim>\<open>except\<close> branch prints a notice and falls off the end of the function, so the
  result is Python's \<^verbatim>\<open>None\<close> and no file is created. Only
  \<^verbatim>\<open>FileNotFoundError\<close> is caught.
\<close>

definition load_mistakes :: "world \<Rightarrow> error + (int Mistake list option \<times> world)" where
  "load_mistakes s =
     (case mistake_file s of
        Some rows \<Rightarrow>
          (case read_mistakes rows of
             Inl e \<Rightarrow> Inl e
           | Inr user_mistakes \<Rightarrow> Inr (Some user_mistakes, s))
      | None \<Rightarrow> Inr (None, print (FileNotFound MISTAKE_FILE) s))"

text \<open>
  \<^verbatim>\<open>get_mistake_count\<close>: \<^verbatim>\<open>len(None)\<close> raises \<^verbatim>\<open>TypeError\<close>.
\<close>

definition get_mistake_count :: "world \<Rightarrow> error + (nat \<times> world)" where
  "get_mistake_count s =
     (case load_mistakes s of
        Inl e \<Rightarrow> Inl e
      | Inr (None, s1) \<Rightarrow> Inl TypeError
      | Inr (Some user_mistakes, s1) \<Rightarrow> Inr (length user_mistakes, s1))"

text \<open>
  The \<^verbatim>\<open>for\<close> loop of \<^verbatim>\<open>add_mistake\<close>: the first row with the same word and
  kana is updated and the loop breaks; the flag is \<^verbatim>\<open>mistake_updated\<close>.
\<close>

fun update_existing ::
  "string \<Rightarrow> string \<Rightarrow> string \<Rightarrow> string \<Rightarrow> string \<Rightarrow> int Mistake list \<Rightarrow>
   int Mistake list \<times> bool"
where
  "update_existing w k ca ua now [] = ([], False)"
| "update_existing w k ca ua now (mistake # rest) =
     (if word mistake = w \<and> kana mistake = k
      then (mistake\<lparr>correct_answer := ca, user_answer := ua,
                     mistake_count := mistake_count mistake + 1,
                     last_mistake_date := now\<rparr> # rest, True)
      else (case update_existing w k ca ua now rest of
              (rest', mistake_updated) \<Rightarrow> (mistake # rest', mistake_updated)))"

definition new_mistake ::
  "string \<Rightarrow> string \<Rightarrow> string \<Rightarrow> string \<Rightarrow> string \<Rightarrow> int Mistake"
where
  "new_mistake w k ca ua now =
     \<lparr>word = w, kana = k, correct_answer = ca, user_answer = ua,
      mistake_count = 1, last_mistake_date = now\<rparr>"

text \<open>
  \<^verbatim>\<open>csv.DictWriter.writerows\<close> after \<^verbatim>\<open>writeheader\<close>: every field is written as
  text, the count through \<^verbatim>\<open>str\<close>.
\<close>

definition writerow :: "int Mistake \<Rightarrow> string Mistake" where
  "writerow mistake =
     \<lparr>word = word mistake, kana = kana mistake, correct_answer = correct_answer mistake,
      user_answer = user_answer mistake,
      mistake_count = str_int (mistake_count mistake),
      last_mistake_date = last_mistake_date mistake\<rparr>"

definition writerows :: "int Mistake list \<Rightarrow> world \<Rightarrow> world" where
  "writerows mistakes s = s\<lparr>mistake_file := Some (map writerow mistakes)\<rparr>"

text \<open>
  \<^verbatim>\<open>add_mistake\<close>. Iterating over the \<^verbatim>\<open>None\<close> of a missing file raises
  \<^verbatim>\<open>TypeError\<close>. The clock is read once, in whichever branch runs. The file is then
  rewritten whole.
\<close>

definition add_mistake ::
  "string \<Rightarrow> string \<Rightarrow> string \<Rightarrow> string \<Rightarrow> world \<Rightarrow> error + world"
where
  "add_mistake w k ca ua s =
     (case load_mistakes s of
        Inl e \<Rightarrow> Inl e
      | Inr (None, s1) \<Rightarrow> Inl TypeError
      | Inr (Some user_mistakes, s1) \<Rightarrow>
          (case datetime_now s1 of
             (now, s2) \<Rightarrow>
               (case update_existing w k ca ua now user_mistakes of
                  (updated, mistake_updated) \<Rightarrow>
                    Inr (writerows (if mistake_updated then updated
                                    else user_mistakes @ [new_mistake w k ca ua now]) s2))))"

text \<open>
  \<^verbatim>\<open>remove_mistake\<close>: the rows whose word differs are kept and written back. The
  returned value compares the length of \<^verbatim>\<open>user_mistakes\<close>, which the loop does not
  change, with the length taken before the loop.
\<close>

definition remove_mistake :: "string \<Rightarrow> world \<Rightarrow> error + (bool \<times> world)" where
  "remove_mistake w s =
     (case load_mistakes s of
        Inl e \<Rightarrow> Inl e
      | Inr (None, s1) \<Rightarrow> Inl TypeError
      | Inr (Some user_mistakes, s1) \<Rightarrow>
          (let old_mistake_count = length user_mistakes;
               filtered_mistakes = filter (\<lambda>mistake. word mistake \<noteq> w) user_mistakes
           in Inr (length user_mistakes < old_mistake_count,
                   writerows filtered_mistakes s1)))"

text \<open>
  \<^verbatim>\<open>reset_mistakes\<close>: the file is rewritten with the header only, then loaded once
  more (the count is not used). The \<^verbatim>\<open>except Exception\<close> branch returns
  \<^verbatim>\<open>False\<close>; loading the file just written does not raise.
\<close>

definition reset_mistakes :: "world \<Rightarrow> bool \<times> world" where
  "reset_mistakes s =
     (case load_mistakes (s\<lparr>mistake_file := Some []\<rparr>) of
        Inl e \<Rightarrow> (False, s\<lparr>mistake_file := Some []\<rparr>)
      | Inr (None, s1) \<Rightarrow> (False, s1)
      | Inr (Some user_mistakes, s1) \<Rightarrow> (True, s1))"

section \<open>random\<close>

text \<open>
  \<^verbatim>\<open>randbelow n\<close>: the next draw, reduced to the range; any value below \<open>n\<close> is the
  result for a suitable stream.
\<close>

definition randbelow :: "nat \<Rightarrow> world \<Rightarrow> nat \<times> world" where
  "randbelow n s = (rng s 0 mod n, s\<lparr>rng := (\<lambda>k. rng s (Suc k))\<rparr>)"

text \<open>
  \<^verbatim>\<open>random.shuffle(x)\<close>:
  \<^verbatim>\<open>for i in reversed(range(1, len(x))): j = randbelow(i + 1); x[i], x[j] = x[j], x[i]\<close>.
\<close>

fun shuffle_loop :: "nat \<Rightarrow> 'a list \<Rightarrow> world \<Rightarrow> 'a list \<times> world" where
  "shuffle_loop i x s =
     (if i = 0 then (x, s)
      else (case randbelow (i + 1) s of
              (j, s1) \<Rightarrow> shuffle_loop (i - 1) (x[i := x ! j, j := x ! i]) s1))"

declare shuffle_loop.simps [simp del]

definition shuffle :: "'a list \<Rightarrow> world \<Rightarrow> 'a list \<times> world" where
  "shuffle x s = shuffle_loop (length x - 1) x s"

text \<open>
  \<^verbatim>\<open>random.sample(population, k)\<close> on a list: \<^verbatim>\<open>ValueError\<close> when \<open>k\<close> exceeds its
  length, and otherwise \<open>k\<close> entries drawn without replacement:
  \<^verbatim>\<open>for i in range(k): j = randbelow(n - i); result[i] = pool[j]; pool[j] = pool[n - i - 1]\<close>.
  (For a population of more than 85 entries and \<open>k = 10\<close> CPython draws the positions
  with rejection instead, which consumes the generator differently and also yields
  \<open>k\<close> entries at distinct positions. A population that is \<^verbatim>\<open>None\<close> raises
  \<^verbatim>\<open>TypeError\<close>; the callers below model that case themselves.)
\<close>

function sample_loop :: "nat \<Rightarrow> nat \<Rightarrow> nat \<Rightarrow> 'a list \<Rightarrow> world \<Rightarrow> 'a list \<times> world" where
  "sample_loop i k n pool s =
     (if i < k
      then (case randbelow (n - i) s of
              (j, s1) \<Rightarrow>
                (case sample_loop (i + 1) k n (pool[j := pool ! (n - i - 1)]) s1 of
                   (result, s2) \<Rightarrow> (pool ! j # result, s2)))
      else ([], s))"
  by pat_completeness auto
termination
  by (relation "measure (\<lambda>(i, k, n, pool, s). k - i)") auto

declare sample_loop.simps [simp del]

definition sample :: "'a list \<Rightarrow> nat \<Rightarrow> world \<Rightarrow> error + ('a list \<times> world)" where
  "sample population k s =
     (if length population < k then Inl ValueError
      else Inr (sample_loop 0 k (length population) population s))"

section \<open>ui\_handler.py\<close>

text \<open>
  \<^verbatim>\<open>input()\<close> takes the next line typed, and raises \<^verbatim>\<open>EOFError\<close> when there is
  none.
\<close>

definition input :: "world \<Rightarrow> error + (string \<times> world)" where
  "input s = (case stdin s of [] \<Rightarrow> Inl EOFError | line # rest \<Rightarrow> Inr (line, s\<lparr>stdin := rest\<rparr>))"

text \<open>
  \<^verbatim>\<open>get_user_choice\<close>: lines are read until one, stripped and upper-cased, is among
  the upper-cased valid options. The loop is a recursion over the lines still to come.
\<close>

fun read_choice :: "string list \<Rightarrow> string list \<Rightarrow> error + (string \<times> string list)" where
  "read_choice valid_options [] = Inl EOFError"
| "read_choice valid_options (line # rest) =
     (let choice = upper (strip line)
      in if choice \<in> set (map upper valid_options) then Inr (choice, rest)
         else read_choice valid_options rest)"

definition get_user_choice :: "string list \<Rightarrow> world \<Rightarrow> error + (string \<times> world)" where
  "get_user_choice valid_options s =
     (case read_choice valid_options (stdin s) of
        Inl e \<Rightarrow> Inl e
      | Inr (choice, rest) \<Rightarrow> Inr (choice, s\<lparr>stdin := rest\<rparr>))"

section \<open>data\_loader.py\<close>

definition JLPT_FILES :: "(string \<times> string) list" where
  "JLPT_FILES =
     [(''N5'', ''data/jlpt_n5.csv''), (''N4'', ''data/jlpt_n4.csv''),
      (''N3'', ''data/jlpt_n3.csv''), (''N2'', ''data/jlpt_n2.csv''),
      (''N1'', ''data/jlpt_n1.csv'')]"

definition CHARACTER_FILE :: string where
  "CHARACTER_FILE = ''data/characters.csv''"

text \<open>
  \<^verbatim>\<open>load_jlpt_vocab\<close> and \<^verbatim>\<open>load_characters\<close>: the rows of the file. When the file
  is missing, the \<^verbatim>\<open>except\<close> branch prints a notice and the function ends without a
  \<^verbatim>\<open>return\<close>: the result is \<^verbatim>\<open>None\<close>.
\<close>

definition load_jlpt_vocab :: "string \<Rightarrow> world \<Rightarrow> row list option \<times> world" where
  "load_jlpt_vocab level s =
     (case map_of JLPT_FILES level of
        None \<Rightarrow> (Some [], s)
      | Some path \<Rightarrow>
          (case vocab_files s path of
             Some vocab_list \<Rightarrow> (Some vocab_list, s)
           | None \<Rightarrow> (None, print (FileNotFound (''jlpt_'' @ lower level @ ''.csv'')) s)))"

definition load_characters :: "world \<Rightarrow> row list option \<times> world" where
  "load_characters s =
     (case vocab_files s CHARACTER_FILE of
        Some character_list \<Rightarrow> (Some character_list, s)
      | None \<Rightarrow> (None, print (FileNotFound CHARACTER_FILE) s))"

section \<open>progress\_manager.py\<close>

text \<open>
  The mastery dictionary: the five levels in the order of the dictionary literal, each
  with its set of mastered kanji. A set is kept as a list without repetitions, in the
  order of insertion; the order in which Python enumerates a set (and so the order of
  the fields that \<^verbatim>\<open>add_mastered_vocab\<close> writes) is not fixed by the language, and
  nothing below depends on it.
\<close>

type_synonym mastery = "(string \<times> string list) list"

definition LEVELS :: "string list" where
  "LEVELS = [''N5'', ''N4'', ''N3'', ''N2'', ''N1'']"

definition empty_mastery :: mastery where
  "empty_mastery = map (\<lambda>level. (level, [])) LEVELS"

definition PROGRESS_HEADER :: "string list" where
  "PROGRESS_HEADER = [''level'', ''mastered_vocab'']"

definition create_progress_file :: "world \<Rightarrow> world" where
  "create_progress_file s =
     s\<lparr>progress_file := Some (PROGRESS_HEADER # map (\<lambda>level. [level]) LEVELS)\<rparr>"

definition set_add :: "string \<Rightarrow> string \<Rightarrow> mastery \<Rightarrow> mastery" where
  "set_add level vocab m =
     map (\<lambda>(l, vocabs). if l = level then (l, List.insert vocab vocabs) else (l, vocabs)) m"

text \<open>
  The inner loop of \<^verbatim>\<open>load_mastered_vocabs\<close>: \<^verbatim>\<open>mastery[level]\<close> is evaluated
  only for a field that is not blank, and raises \<^verbatim>\<open>KeyError\<close> for a level that is
  not one of the five.
\<close>

fun add_vocabs :: "string \<Rightarrow> string list \<Rightarrow> mastery \<Rightarrow> error + mastery" where
  "add_vocabs level [] m = Inr m"
| "add_vocabs level (vocab # vocabs) m =
     (if strip vocab \<noteq> []
      then (case map_of m level of
              None \<Rightarrow> Inl KeyError
            | Some _ \<Rightarrow> add_vocabs level vocabs (set_add level vocab m))
      else add_vocabs level vocabs m)"

fun read_progress_lines :: "string list list \<Rightarrow> mastery \<Rightarrow> error + mastery" where
  "read_progress_lines [] m = Inr m"
| "read_progress_lines (line # lines) m =
     (case line of
        level # vocab # vocabs \<Rightarrow>
          (case add_vocabs level (vocab # vocabs) m of
             Inl e \<Rightarrow> Inl e
           | Inr m' \<Rightarrow> read_progress_lines lines m')
      | _ \<Rightarrow> read_progress_lines lines m)"

text \<open>
  \<^verbatim>\<open>load_mastered_vocabs\<close>: \<^verbatim>\<open>next(reader)\<close> skips the header and raises
  \<^verbatim>\<open>StopIteration\<close> on a file without lines; a missing file is created and the empty
  mastery returned.
\<close>

definition load_mastered_vocabs :: "world \<Rightarrow> error + (mastery \<times> world)" where
  "load_mastered_vocabs s =
     (case progress_file s of
        None \<Rightarrow> Inr (empty_mastery, create_progress_file s)
      | Some [] \<Rightarrow> Inl StopIteration
      | Some (header # lines) \<Rightarrow>
          (case read_progress_lines lines empty_mastery of
             Inl e \<Rightarrow> Inl e
           | Inr m \<Rightarrow> Inr (m, s)))"

definition add_mastered_vocab :: "string \<Rightarrow> string \<Rightarrow> world \<Rightarrow> error + (bool \<times> world)" where
  "add_mastered_vocab level kanji s =
     (case load_mastered_vocabs s of
        Inl e \<Rightarrow> Inl e
      | Inr (m, s1) \<Rightarrow>
          (case map_of m level of
             None \<Rightarrow> Inl KeyError
           | Some vocab_set \<Rightarrow>
               if kanji \<in> set vocab_set then Inr (False, s1)
               else Inr (True,
                      s1\<lparr>progress_file :=
                           Some (PROGRESS_HEADER #
                                 map (\<lambda>(l, vocabs). l # vocabs) (set_add level kanji m))\<rparr>)))"


section \<open>quiz\_manager.py\<close>

text \<open>
  The first part of \<^verbatim>\<open>generate_question\<close>: the prompt, the correct answer and the
  column the options come from. For a quiz type that is neither \<^verbatim>\<open>'jlpt'\<close> nor
  \<^verbatim>\<open>'character'\<close> the three keep their initial value, the empty string.
\<close>

definition question_fields :: "row \<Rightarrow> string \<Rightarrow> error + (string \<times> string \<times> string)" where
  "question_fields correct_content quiz_type =
     (if quiz_type = ''jlpt'' then
        (case correct_content ''Kana'' of
           None \<Rightarrow> Inl KeyError
         | Some kana' \<Rightarrow>
             (case correct_content ''Kanji'' of
                None \<Rightarrow> Inl KeyError
              | Some kanji \<Rightarrow>
                  (case correct_content ''Meaning'' of
                     None \<Rightarrow> Inl KeyError
                   | Some meaning \<Rightarrow>
                       Inr (kana' @ '' ('' @ kanji @ '')'', meaning, ''Meaning''))))
      else if quiz_type = ''character'' then
        (case correct_content ''Character'' of
           None \<Rightarrow> Inl KeyError
         | Some character \<Rightarrow>
             (case correct_content ''Correct Answer'' of
                None \<Rightarrow> Inl KeyError
              | Some answer \<Rightarrow> Inr (character, answer, ''Correct Answer'')))
      else Inr ([], [], []))"

text \<open>
  The loop that collects the distractors: the value of the option column of every entry
  of the pool that differs from the correct answer, in the order of the pool.
\<close>

fun wrong_options_of :: "string \<Rightarrow> string \<Rightarrow> row list \<Rightarrow> error + string list" where
  "wrong_options_of option_type answer [] = Inr []"
| "wrong_options_of option_type answer (content # rest) =
     (case content option_type of
        None \<Rightarrow> Inl KeyError
      | Some v \<Rightarrow>
          (case wrong_options_of option_type answer rest of
             Inl e \<Rightarrow> Inl e
           | Inr wrong_options \<Rightarrow>
               Inr (if v \<noteq> answer then v # wrong_options else wrong_options)))"

text \<open>
  The options: the correct answer, then the last three of the shuffled distractors
  (\<^verbatim>\<open>wrong_options[-3:]\<close>, all of them when there are fewer), shuffled.
\<close>

definition make_options :: "string \<Rightarrow> string list \<Rightarrow> world \<Rightarrow> string list \<times> world" where
  "make_options answer wrong_options s =
     (case shuffle wrong_options s of
        (shuffled, s1) \<Rightarrow> shuffle (answer # drop (length shuffled - 3) shuffled) s1)"

definition generate_question ::
  "row \<Rightarrow> row list \<Rightarrow> string \<Rightarrow> world \<Rightarrow> error + ((string \<times> string list) \<times> world)"
where
  "generate_question correct_content all_content quiz_type s =
     (case question_fields correct_content quiz_type of
        Inl e \<Rightarrow> Inl e
      | Inr (question_prompt, answer, option_type) \<Rightarrow>
          (case wrong_options_of option_type answer all_content of
             Inl e \<Rightarrow> Inl e
           | Inr wrong_options \<Rightarrow>
               (case make_options answer wrong_options s of
                  (options, s1) \<Rightarrow> Inr ((question_prompt, options), s1))))"

text \<open>\<^verbatim>\<open>options.index(x)\<close>: the first position, \<^verbatim>\<open>ValueError\<close> if none.\<close>

fun get_correct_answer_index :: "string list \<Rightarrow> string \<Rightarrow> error + nat" where
  "get_correct_answer_index [] answer = Inl ValueError"
| "get_correct_answer_index (option # options) answer =
     (if option = answer then Inr 0
      else (case get_correct_answer_index options answer of
              Inl e \<Rightarrow> Inl e
            | Inr i \<Rightarrow> Inr (Suc i)))"


text \<open>
  \<^verbatim>\<open>options[choice_index]\<close> with Python's indexing: a negative index counts from the
  end, and an index outside the list raises \<^verbatim>\<open>IndexError\<close>.
\<close>

definition list_getitem :: "'a list \<Rightarrow> int \<Rightarrow> error + 'a" where
  "list_getitem options i =
     (if 0 \<le> i \<and> i < int (length options) then Inr (options ! nat i)
      else if i < 0 \<and> - int (length options) \<le> i
      then Inr (options ! nat (int (length options) + i))
      else Inl IndexError)"

text \<open>
  \<^verbatim>\<open>choice_index = ord(user_choice) - ord('A')\<close>.
\<close>

definition choice_index_of :: "string \<Rightarrow> error + int" where
  "choice_index_of user_choice =
     (case ord user_choice of
        Inl e \<Rightarrow> Inl e
      | Inr c \<Rightarrow> (case ord ''A'' of Inl e \<Rightarrow> Inl e | Inr a \<Rightarrow> Inr (c - a)))"

text \<open>
  One pass through the body of a \<^verbatim>\<open>while\<close> loop either goes on to the next test of
  the loop condition with a new state, or returns from the enclosing function.
\<close>

datatype ('st, 'r) iter = Next 'st | Return 'r

subsection \<open>run\_mistake\_review\<close>

text \<open>
  The prompt, the correct answer and the option column of a review question. For
  \<^verbatim>\<open>'character'\<close> the code reads \<^verbatim>\<open>mistake['Correct Answer']\<close>, a key that no
  mistake has; for any other quiz type the three variables are unbound when first used.
\<close>

definition review_fields ::
  "string \<Rightarrow> 'a MistakeReview_scheme \<Rightarrow> error + (string \<times> string \<times> string)"
where
  "review_fields quiz_type mistake =
     (if quiz_type = ''jlpt'' then Inr (word mistake, correct_answer mistake, ''Meaning'')
      else if quiz_type = ''character'' then Inl KeyError
      else Inl UnboundLocalError)"

text \<open>
  The body of the loop of \<^verbatim>\<open>run_mistake_review\<close>, for the question at \<open>q_no\<close>; the
  state of the loop is \<open>q_no\<close>, \<open>cleared_mistakes\<close> and \<open>remaining_mistakes\<close>, and the
  result of the function the three values it returns.
\<close>

definition review_body ::
  "row list \<Rightarrow> string \<Rightarrow> 'a MistakeReview_scheme list \<Rightarrow>
   nat \<Rightarrow> nat \<Rightarrow> 'a MistakeReview_scheme list \<Rightarrow> world \<Rightarrow>
   error + ((nat \<times> nat \<times> 'a MistakeReview_scheme list) \<times> world,
            (nat \<times> 'a MistakeReview_scheme list \<times> bool) \<times> world) iter"
where
  "review_body all_content quiz_type mistakes_list q_no cleared_mistakes remaining_mistakes s =
     (let mistake = mistakes_list ! q_no in
      case review_fields quiz_type mistake of
        Inl e \<Rightarrow> Inl e
      | Inr (question_prompt, answer, option_type) \<Rightarrow>
      (case wrong_options_of option_type answer all_content of
        Inl e \<Rightarrow> Inl e
      | Inr wrong_options \<Rightarrow>
      (case make_options answer wrong_options s of
        (options, s1) \<Rightarrow>
      (case get_user_choice [''A'', ''B'', ''C'', ''D'', ''Q'']
              (print (ReviewQuestion (q_no + 1) question_prompt options) s1) of
        Inl e \<Rightarrow> Inl e
      | Inr (user_choice, s2) \<Rightarrow>
          if user_choice = ''Q'' then
            (case get_user_choice [''Y'', ''N''] s2 of
               Inl e \<Rightarrow> Inl e
             | Inr (user_confirmation, s3) \<Rightarrow>
                 if user_confirmation = ''Y''
                 then Inr (Return ((cleared_mistakes,
                                    remaining_mistakes @ drop q_no mistakes_list, True), s3))
                 else Inr (Next ((q_no, cleared_mistakes, remaining_mistakes), s3)))
          else
            (case choice_index_of user_choice of
               Inl e \<Rightarrow> Inl e
             | Inr choice_index \<Rightarrow>
            (case get_correct_answer_index options answer of
               Inl e \<Rightarrow> Inl e
             | Inr correct_index \<Rightarrow>
                 if choice_index = int correct_index
                 then Inr (Next ((q_no + 1, cleared_mistakes + 1, remaining_mistakes), s2))
                 else Inr (Next ((q_no + 1, cleared_mistakes,
                                  remaining_mistakes @ [mistake]), s2))))))))"

lemma read_choice_shorter:
  "read_choice valid lines = Inr (choice, rest) \<Longrightarrow> length rest < length lines"
  by (induction lines) (auto simp: Let_def split: if_splits)

lemma get_user_choice_stdin:
  "get_user_choice valid s = Inr (choice, s') \<Longrightarrow> length (stdin s') < length (stdin s)"
  by (auto simp: get_user_choice_def split: sum.splits dest: read_choice_shorter)

lemma shuffle_loop_rng_only:
  "\<exists>r. snd (shuffle_loop i x s) = s\<lparr>rng := r\<rparr>"
proof (induction i x s rule: shuffle_loop.induct)
  case (1 i x s)
  show ?case
  proof (cases "i = 0")
    case True
    have "snd (shuffle_loop i x s) = s\<lparr>rng := rng s\<rparr>"
      using True by (simp add: shuffle_loop.simps)
    then show ?thesis by blast
  next
    case False
    obtain j s1 where r: "randbelow (i + 1) s = (j, s1)" by (cases "randbelow (i + 1) s")
    then have s1: "s1 = s\<lparr>rng := (\<lambda>k. rng s (Suc k))\<rparr>" by (auto simp: randbelow_def)
    from "1.IH" [OF False r [symmetric]] obtain r' where
      "snd (shuffle_loop (i - 1) (x[i := x ! j, j := x ! i]) s1) = s1\<lparr>rng := r'\<rparr>" by blast
    then have "snd (shuffle_loop i x s) = s1\<lparr>rng := r'\<rparr>"
      using False r by (simp add: shuffle_loop.simps [of i])
    then have "snd (shuffle_loop i x s) = s\<lparr>rng := r'\<rparr>" by (simp add: s1)
    then show ?thesis by blast
  qed
qed

lemma shuffle_rng_only: "\<exists>r. snd (shuffle x s) = s\<lparr>rng := r\<rparr>"
  unfolding shuffle_def by (rule shuffle_loop_rng_only)

lemma make_options_rng_only: "\<exists>r. snd (make_options ca ws s) = s\<lparr>rng := r\<rparr>"
proof -
  obtain sh s1 where r: "shuffle ws s = (sh, s1)" by (cases "shuffle ws s")
  from shuffle_rng_only [of ws s] r obtain r1 where s1: "s1 = s\<lparr>rng := r1\<rparr>" by auto
  from shuffle_rng_only [of "ca # drop (length sh - 3) sh" s1] obtain r2 where
    "snd (shuffle (ca # drop (length sh - 3) sh) s1) = s1\<lparr>rng := r2\<rparr>" by blast
  then have "snd (make_options ca ws s) = s\<lparr>rng := r2\<rparr>"
    using r by (simp add: make_options_def s1)
  then show ?thesis by blast
qed

lemma review_body_Next_stdin:
  assumes "review_body all_content quiz_type mistakes_list q_no c r s = Inr (Next (st, s'))"
  shows "length (stdin s') < length (stdin s)"
proof -
  from assms obtain question_prompt answer option_type wrong_options where
    f: "review_fields quiz_type (mistakes_list ! q_no) = Inr (question_prompt, answer, option_type)"
    and w: "wrong_options_of option_type answer all_content = Inr wrong_options"
    by (auto simp: review_body_def Let_def split: sum.splits)
  obtain options s1 where m: "make_options answer wrong_options s = (options, s1)"
    by (cases "make_options answer wrong_options s")
  from make_options_rng_only [of answer wrong_options s] m have s1: "stdin s1 = stdin s" by auto
  from assms f w m obtain user_choice s2 where
    g: "get_user_choice [''A'', ''B'', ''C'', ''D'', ''Q'']
          (print (ReviewQuestion (q_no + 1) question_prompt options) s1) = Inr (user_choice, s2)"
    by (auto simp: review_body_def Let_def split: sum.splits)
  from get_user_choice_stdin [OF g] s1 have s2: "length (stdin s2) < length (stdin s)"
    by (simp add: print_def)
  show ?thesis
  proof (cases "user_choice = ''Q''")
    case True
    with assms f w m g obtain user_confirmation where
      "get_user_choice [''Y'', ''N''] s2 = Inr (user_confirmation, s')"
      by (auto simp: review_body_def Let_def split: sum.splits if_splits)
    from get_user_choice_stdin [OF this] s2 show ?thesis by simp
  next
    case False
    with assms f w m g have "s' = s2"
      by (auto simp: review_body_def Let_def split: sum.splits if_splits)
    with s2 show ?thesis by simp
  qed
qed

text \<open>
  The \<^verbatim>\<open>while q_no < len(mistakes_list)\<close> loop; after the loop the function returns
  \<^verbatim>\<open>(cleared_mistakes, remaining_mistakes, False)\<close>. Every pass reads at least one line,
  so the loop ends, by the end of the input at the latest.
\<close>

function review_loop ::
  "row list \<Rightarrow> string \<Rightarrow> 'a MistakeReview_scheme list \<Rightarrow>
   nat \<Rightarrow> nat \<Rightarrow> 'a MistakeReview_scheme list \<Rightarrow> world \<Rightarrow>
   error + ((nat \<times> 'a MistakeReview_scheme list \<times> bool) \<times> world)"
where
  "review_loop all_content quiz_type mistakes_list q_no cleared_mistakes remaining_mistakes s =
     (if q_no < length mistakes_list then
        (case review_body all_content quiz_type mistakes_list
                q_no cleared_mistakes remaining_mistakes s of
           Inl e \<Rightarrow> Inl e
         | Inr (Return result) \<Rightarrow> Inr result
         | Inr (Next ((q_no', cleared_mistakes', remaining_mistakes'), s')) \<Rightarrow>
             review_loop all_content quiz_type mistakes_list
               q_no' cleared_mistakes' remaining_mistakes' s')
      else Inr ((cleared_mistakes, remaining_mistakes, False), s))"
  by pat_completeness auto
termination
  by (relation "measure (\<lambda>(all_content, quiz_type, mistakes_list, q_no, c, r, s). length (stdin s))")
     (auto dest: review_body_Next_stdin)

declare review_loop.simps [simp del]

text \<open>
  \<^verbatim>\<open>run_mistake_review\<close>. \<^verbatim>\<open>random.shuffle(mistakes_list)\<close> reorders the caller's
  list in place, so the model returns the reordered list next to the three values of
  the \<^verbatim>\<open>return\<close> statement.
\<close>

definition run_mistake_review ::
  "row list \<Rightarrow> string \<Rightarrow> 'a MistakeReview_scheme list \<Rightarrow> world \<Rightarrow>
   error + (((nat \<times> 'a MistakeReview_scheme list \<times> bool) \<times> 'a MistakeReview_scheme list) \<times> world)"
where
  "run_mistake_review all_content quiz_type mistakes_list s =
     (case shuffle mistakes_list s of
        (shuffled, s1) \<Rightarrow>
          (case review_loop all_content quiz_type shuffled 0 0 [] s1 of
             Inl e \<Rightarrow> Inl e
           | Inr (result, s2) \<Rightarrow> Inr ((result, shuffled), s2)))"

text \<open>
  \<^verbatim>\<open>for mistake in ...: MISTAKE.add_mistake(mistake['word'], mistake['kana'],
  mistake['correct_answer'], mistake['user_answer'])\<close>, the loop with which every caller
  persists a list of mistakes.
\<close>

fun add_mistakes :: "'a MistakeReview_scheme list \<Rightarrow> world \<Rightarrow> error + world" where
  "add_mistakes [] s = Inr s"
| "add_mistakes (mistake # rest) s =
     (case add_mistake (word mistake) (kana mistake) (correct_answer mistake)
             (user_answer mistake) s of
        Inl e \<Rightarrow> Inl e
      | Inr s1 \<Rightarrow> add_mistakes rest s1)"

subsection \<open>run\_mistake\_practice\<close>

text \<open>
  \<^verbatim>\<open>for level in [...]: all_jlpt_vocab.extend(DATA.load_jlpt_vocab(level))\<close>:
  \<^verbatim>\<open>extend(None)\<close> raises \<^verbatim>\<open>TypeError\<close>.
\<close>

fun load_all_levels :: "string list \<Rightarrow> row list \<Rightarrow> world \<Rightarrow> error + (row list \<times> world)" where
  "load_all_levels [] all_jlpt_vocab s = Inr (all_jlpt_vocab, s)"
| "load_all_levels (level # levels) all_jlpt_vocab s =
     (case load_jlpt_vocab level s of
        (None, s1) \<Rightarrow> Inl TypeError
      | (Some vocab_list, s1) \<Rightarrow> load_all_levels levels (all_jlpt_vocab @ vocab_list) s1)"

definition press_enter :: "world \<Rightarrow> error + world" where
  "press_enter s = (case input s of Inl e \<Rightarrow> Inl e | Inr (line, s1) \<Rightarrow> Inr s1)"

definition run_mistake_practice :: "world \<Rightarrow> error + world" where
  "run_mistake_practice s =
     (case load_mistakes s of
        Inl e \<Rightarrow> Inl e
      | Inr (None, s1) \<Rightarrow> press_enter s1
      | Inr (Some [], s1) \<Rightarrow> press_enter s1
      | Inr (Some all_mistakes, s1) \<Rightarrow>
          (case load_all_levels LEVELS [] s1 of
             Inl e \<Rightarrow> Inl e
           | Inr (all_jlpt_vocab, s2) \<Rightarrow>
               (case run_mistake_review all_jlpt_vocab ''jlpt'' all_mistakes s2 of
                  Inl e \<Rightarrow> Inl e
                | Inr (((corrected_mistake_num, remaining_mistakes, user_quit_early),
                        shuffled), s3) \<Rightarrow>
                    if user_quit_early then press_enter s3
                    else (case add_mistakes remaining_mistakes (snd (reset_mistakes s3)) of
                            Inl e \<Rightarrow> Inl e
                          | Inr s4 \<Rightarrow> press_enter s4))))"

subsection \<open>run\_jlpt\_quiz\<close>

text \<open>
  The body of the question loop of \<^verbatim>\<open>run_jlpt_quiz\<close>. The state of the loop is
  \<open>q_no\<close>, \<open>score\<close> and \<open>mistakes\<close>; a confirmed quit returns from the function.
\<close>

definition jlpt_body ::
  "string \<Rightarrow> row list \<Rightarrow> nat \<Rightarrow> nat \<Rightarrow> MistakeReview list \<Rightarrow> world \<Rightarrow>
   error + ((nat \<times> nat \<times> MistakeReview list) \<times> world, world) iter"
where
  "jlpt_body level quiz_content q_no score mistakes s =
     (let content = quiz_content ! q_no in
      case generate_question content quiz_content ''jlpt'' s of
        Inl e \<Rightarrow> Inl e
      | Inr ((question_prompt, options), s1) \<Rightarrow>
      (case get_user_choice [''A'', ''B'', ''C'', ''D'', ''Q'']
              (print (Question (q_no + 1) question_prompt options) s1) of
        Inl e \<Rightarrow> Inl e
      | Inr (user_choice, s2) \<Rightarrow>
          if user_choice = ''Q'' then
            (case get_user_choice [''Y'', ''N''] s2 of
               Inl e \<Rightarrow> Inl e
             | Inr (user_confirmation, s3) \<Rightarrow>
                 if user_confirmation = ''Y'' then Inr (Return s3)
                 else Inr (Next ((q_no, score, mistakes), s3)))
          else
            (case choice_index_of user_choice of
               Inl e \<Rightarrow> Inl e
             | Inr choice_index \<Rightarrow>
            (case getitem content ''Meaning'' of
               Inl e \<Rightarrow> Inl e
             | Inr meaning \<Rightarrow>
            (case get_correct_answer_index options meaning of
               Inl e \<Rightarrow> Inl e
             | Inr correct_index \<Rightarrow>
                 if choice_index = int correct_index then
                   (case getitem content ''Kanji'' of
                      Inl e \<Rightarrow> Inl e
                    | Inr kanji \<Rightarrow>
                   (case add_mastered_vocab level kanji s2 of
                      Inl e \<Rightarrow> Inl e
                    | Inr (added, s3) \<Rightarrow> Inr (Next ((q_no + 1, score + 1, mistakes), s3))))
                 else
                   (case getitem content ''Kanji'' of
                      Inl e \<Rightarrow> Inl e
                    | Inr kanji \<Rightarrow>
                   (case getitem content ''Kana'' of
                      Inl e \<Rightarrow> Inl e
                    | Inr kana' \<Rightarrow>
                   (case list_getitem options choice_index of
                      Inl e \<Rightarrow> Inl e
                    | Inr chosen \<Rightarrow>
                        Inr (Next ((q_no + 1, score,
                                    mistakes @ [\<lparr>word = kanji, kana = kana',
                                                 correct_answer = meaning,
                                                 user_answer = chosen\<rparr>]), s2))))))))))"

lemma generate_question_rng_only:
  "generate_question content pool quiz_type s = Inr (r, s') \<Longrightarrow> \<exists>g. s' = s\<lparr>rng := g\<rparr>"
proof -
  assume a: "generate_question content pool quiz_type s = Inr (r, s')"
  then obtain answer ws options where "make_options answer ws s = (options, s')"
    by (auto simp: generate_question_def split: sum.splits prod.splits)
  then have "s' = snd (make_options answer ws s)" by simp
  with make_options_rng_only [of answer ws s] show ?thesis by simp
qed

lemma add_mastered_vocab_progress_only:
  "add_mastered_vocab level kanji s = Inr (b, s') \<Longrightarrow> \<exists>p. s' = s\<lparr>progress_file := p\<rparr>"
proof -
  assume a: "add_mastered_vocab level kanji s = Inr (b, s')"
  then obtain m s1 where l: "load_mastered_vocabs s = Inr (m, s1)"
    by (auto simp: add_mastered_vocab_def split: sum.splits)
  then have "\<exists>p. s1 = s\<lparr>progress_file := p\<rparr>"
  proof (cases "progress_file s")
    case None
    with l have "s1 = s\<lparr>progress_file := Some (PROGRESS_HEADER # map (\<lambda>level. [level]) LEVELS)\<rparr>"
      by (simp add: load_mastered_vocabs_def create_progress_file_def)
    then show ?thesis by blast
  next
    case (Some f)
    with l have "s1 = s" by (auto simp: load_mastered_vocabs_def split: list.splits sum.splits)
    then have "s1 = s\<lparr>progress_file := progress_file s\<rparr>" by simp
    then show ?thesis by blast
  qed
  then obtain p where s1: "s1 = s\<lparr>progress_file := p\<rparr>" by blast
  from a l have "s' = s1 \<or> (\<exists>q. s' = s1\<lparr>progress_file := q\<rparr>)"
    by (auto simp: add_mastered_vocab_def split: option.splits if_splits)
  with s1 show ?thesis by auto
qed

lemma jlpt_body_Next_stdin:
  assumes "jlpt_body level quiz_content q_no score mistakes s = Inr (Next (st, s'))"
  shows "length (stdin s') < length (stdin s)"
proof -
  from assms obtain question_prompt options s1 where
    g: "generate_question (quiz_content ! q_no) quiz_content ''jlpt'' s =
          Inr ((question_prompt, options), s1)"
    by (auto simp: jlpt_body_def Let_def split: sum.splits)
  from generate_question_rng_only [OF g] have s1: "stdin s1 = stdin s" by auto
  from assms g obtain user_choice s2 where
    c: "get_user_choice [''A'', ''B'', ''C'', ''D'', ''Q'']
          (print (Question (q_no + 1) question_prompt options) s1) = Inr (user_choice, s2)"
    by (auto simp: jlpt_body_def Let_def split: sum.splits)
  from get_user_choice_stdin [OF c] s1 have s2: "length (stdin s2) < length (stdin s)"
    by (simp add: print_def)
  show ?thesis
  proof (cases "user_choice = ''Q''")
    case True
    with assms g c obtain user_confirmation where
      "get_user_choice [''Y'', ''N''] s2 = Inr (user_confirmation, s')"
      by (auto simp: jlpt_body_def Let_def split: sum.splits if_splits)
    from get_user_choice_stdin [OF this] s2 show ?thesis by simp
  next
    case False
    with assms g c have "s' = s2 \<or> (\<exists>kanji b. add_mastered_vocab level kanji s2 = Inr (b, s'))"
      by (auto simp: jlpt_body_def Let_def split: sum.splits if_splits)
    then have "stdin s' = stdin s2"
      using add_mastered_vocab_progress_only by fastforce
    with s2 show ?thesis by simp
  qed
qed

text \<open>
  The question loop: \<open>None\<close> when the user quit, the score and the mistakes when all
  questions were answered.
\<close>

function jlpt_loop ::
  "string \<Rightarrow> row list \<Rightarrow> nat \<Rightarrow> nat \<Rightarrow> MistakeReview list \<Rightarrow> world \<Rightarrow>
   error + ((nat \<times> MistakeReview list) option \<times> world)"
where
  "jlpt_loop level quiz_content q_no score mistakes s =
     (if q_no < length quiz_content then
        (case jlpt_body level quiz_content q_no score mistakes s of
           Inl e \<Rightarrow> Inl e
         | Inr (Return s') \<Rightarrow> Inr (None, s')
         | Inr (Next ((q_no', score', mistakes'), s')) \<Rightarrow>
             jlpt_loop level quiz_content q_no' score' mistakes' s')
      else Inr (Some (score, mistakes), s))"
  by pat_completeness auto
termination
  by (relation "measure (\<lambda>(level, quiz_content, q_no, score, mistakes, s). length (stdin s))")
     (auto dest: jlpt_body_Next_stdin)

declare jlpt_loop.simps [simp del]

text \<open>
  The rest of \<^verbatim>\<open>run_jlpt_quiz\<close>, from the quiz summary on: the offer of a review, the
  mistakes that are persisted, and the final \<^verbatim>\<open>input\<close>. After the review
  \<^verbatim>\<open>mistakes\<close> is the list as the review reordered it.
\<close>

definition jlpt_quiz_summary :: "row list \<Rightarrow> MistakeReview list \<Rightarrow> world \<Rightarrow> error + world" where
  "jlpt_quiz_summary all_vocabs mistakes s =
     (if mistakes \<noteq> [] then
        (case get_user_choice [''Y'', ''N''] s of
           Inl e \<Rightarrow> Inl e
         | Inr (review_choice, s1) \<Rightarrow>
             if review_choice = ''Y'' then
               (case run_mistake_review all_vocabs ''jlpt'' mistakes s1 of
                  Inl e \<Rightarrow> Inl e
                | Inr (((corrected_mistake_no, updated_mistakes, user_quit_early),
                        mistakes'), s2) \<Rightarrow>
                    (case add_mistakes
                            (if user_quit_early then mistakes' else updated_mistakes) s2 of
                       Inl e \<Rightarrow> Inl e
                     | Inr s3 \<Rightarrow> press_enter s3))
             else
               (case add_mistakes mistakes s1 of
                  Inl e \<Rightarrow> Inl e
                | Inr s2 \<Rightarrow> press_enter s2))
      else press_enter s)"

text \<open>
  \<^verbatim>\<open>run_jlpt_quiz\<close>. \<^verbatim>\<open>random.sample(all_vocabs, 10)\<close> is called on whatever
  \<^verbatim>\<open>load_jlpt_vocab\<close> returned, with nothing in between.
\<close>

definition run_jlpt_quiz :: "string \<Rightarrow> world \<Rightarrow> error + world" where
  "run_jlpt_quiz level s =
     (case load_jlpt_vocab level s of
        (None, s1) \<Rightarrow> Inl TypeError
      | (Some all_vocabs, s1) \<Rightarrow>
          (case sample all_vocabs 10 s1 of
             Inl e \<Rightarrow> Inl e
           | Inr (quiz_content, s2) \<Rightarrow>
               (case jlpt_loop level quiz_content 0 0 [] s2 of
                  Inl e \<Rightarrow> Inl e
                | Inr (None, s3) \<Rightarrow> Inr s3
                | Inr (Some (score, mistakes), s3) \<Rightarrow>
                    jlpt_quiz_summary all_vocabs mistakes s3)))"

subsection \<open>run\_character\_quiz\<close>

definition character_body ::
  "row list \<Rightarrow> nat \<Rightarrow> nat \<Rightarrow> world \<Rightarrow> error + ((nat \<times> nat) \<times> world, world) iter"
where
  "character_body quiz_content q_no score s =
     (let content = quiz_content ! q_no in
      case generate_question content quiz_content ''character'' s of
        Inl e \<Rightarrow> Inl e
      | Inr ((question_prompt, options), s1) \<Rightarrow>
      (case get_user_choice [''A'', ''B'', ''C'', ''D'', ''Q'']
              (print (Question (q_no + 1) question_prompt options) s1) of
        Inl e \<Rightarrow> Inl e
      | Inr (user_choice, s2) \<Rightarrow>
          if user_choice = ''Q'' then
            (case get_user_choice [''Y'', ''N''] s2 of
               Inl e \<Rightarrow> Inl e
             | Inr (user_confirmation, s3) \<Rightarrow>
                 if user_confirmation = ''Y'' then Inr (Return s3)
                 else Inr (Next ((q_no, score), s3)))
          else
            (case choice_index_of user_choice of
               Inl e \<Rightarrow> Inl e
             | Inr choice_index \<Rightarrow>
            (case getitem content ''Correct Answer'' of
               Inl e \<Rightarrow> Inl e
             | Inr reading \<Rightarrow>
            (case get_correct_answer_index options reading of
               Inl e \<Rightarrow> Inl e
             | Inr correct_index \<Rightarrow>
                 if choice_index = int correct_index
                 then Inr (Next ((q_no + 1, score + 1), s2))
                 else Inr (Next ((q_no + 1, score), s2)))))))"

lemma character_body_Next_stdin:
  assumes "character_body quiz_content q_no score s = Inr (Next (st, s'))"
  shows "length (stdin s') < length (stdin s)"
proof -
  from assms obtain question_prompt options s1 where
    g: "generate_question (quiz_content ! q_no) quiz_content ''character'' s =
          Inr ((question_prompt, options), s1)"
    by (auto simp: character_body_def Let_def split: sum.splits)
  from generate_question_rng_only [OF g] have s1: "stdin s1 = stdin s" by auto
  from assms g obtain user_choice s2 where
    c: "get_user_choice [''A'', ''B'', ''C'', ''D'', ''Q'']
          (print (Question (q_no + 1) question_prompt options) s1) = Inr (user_choice, s2)"
    by (auto simp: character_body_def Let_def split: sum.splits)
  from get_user_choice_stdin [OF c] s1 have s2: "length (stdin s2) < length (stdin s)"
    by (simp add: print_def)
  show ?thesis
  proof (cases "user_choice = ''Q''")
    case True
    with assms g c obtain user_confirmation where
      "get_user_choice [''Y'', ''N''] s2 = Inr (user_confirmation, s')"
      by (auto simp: character_body_def Let_def split: sum.splits if_splits)
    from get_user_choice_stdin [OF this] s2 show ?thesis by simp
  next
    case False
    with assms g c have "s' = s2"
      by (auto simp: character_body_def Let_def split: sum.splits if_splits)
    with s2 show ?thesis by simp
  qed
qed

function character_loop ::
  "row list \<Rightarrow> nat \<Rightarrow> nat \<Rightarrow> world \<Rightarrow> error + (nat option \<times> world)"
where
  "character_loop quiz_content q_no score s =
     (if q_no < length quiz_content then
        (case character_body quiz_content q_no score s of
           Inl e \<Rightarrow> Inl e
         | Inr (Return s') \<Rightarrow> Inr (None, s')
         | Inr (Next ((q_no', score'), s')) \<Rightarrow> character_loop quiz_content q_no' score' s')
      else Inr (Some score, s))"
  by pat_completeness auto
termination
  by (relation "measure (\<lambda>(quiz_content, q_no, score, s). length (stdin s))")
     (auto dest: character_body_Next_stdin)

declare character_loop.simps [simp del]

definition run_character_quiz :: "world \<Rightarrow> error + world" where
  "run_character_quiz s =
     (case load_characters s of
        (None, s1) \<Rightarrow> Inl TypeError
      | (Some all_characters, s1) \<Rightarrow>
          (case sample all_characters 10 s1 of
             Inl e \<Rightarrow> Inl e
           | Inr (quiz_content, s2) \<Rightarrow>
               (case character_loop quiz_content 0 0 s2 of
                  Inl e \<Rightarrow> Inl e
                | Inr (None, s3) \<Rightarrow> Inr s3
                | Inr (Some score, s3) \<Rightarrow> press_enter s3)))"

section \<open>The mistake store\<close>

subsection \<open>Numerals\<close>

lemma digit_cases:
  "d < 10 \<Longrightarrow> d = 0 \<or> d = 1 \<or> d = 2 \<or> d = 3 \<or> d = 4 \<or> d = 5 \<or> d = 6 \<or> d = 7 \<or> d = 8 \<or> d = (9::nat)"
  by arith

lemma digit_of_digit_char: "d < 10 \<Longrightarrow> digit_of (digit_char d) = Some d"
  using digit_cases [of d] by (auto simp: digit_of_def digit_char_def)

lemma digit_char_plain:
  "d < 10 \<Longrightarrow> \<not> isspace (digit_char d) \<and> digit_char d \<noteq> CHR ''_'' \<and>
     digit_char d \<noteq> CHR ''-'' \<and> digit_char d \<noteq> CHR ''+''"
  using digit_cases [of d] by (auto simp: digit_char_def isspace_def)

definition is_digit :: "char \<Rightarrow> bool" where
  "is_digit c = (\<exists>d<10. c = digit_char d)"

lemma digits_are_digits: "list_all is_digit (digits n) \<and> digits n \<noteq> []"
proof (induction n rule: digits.induct)
  case (1 n)
  show ?case
  proof (cases "n < 10")
    case True
    then show ?thesis by (auto simp: digits.simps [of n] is_digit_def)
  next
    case False
    have "n mod 10 < 10" by simp
    then have "is_digit (digit_char (n mod 10))" unfolding is_digit_def by blast
    with "1.IH" False show ?thesis by (simp add: digits.simps [of n])
  qed
qed

lemma decimal_digits:
  "list_all is_digit ds \<Longrightarrow> ds \<noteq> [] \<Longrightarrow>
   decimal acc b ds = Some (foldl (\<lambda>a c. 10 * a + the (digit_of c)) acc ds)"
proof (induction ds arbitrary: acc b)
  case Nil
  then show ?case by simp
next
  case (Cons c ds)
  from Cons.prems obtain d where d: "d < 10" "c = digit_char d"
    by (auto simp: is_digit_def)
  then have c: "c \<noteq> CHR ''_''" "digit_of c = Some d"
    using digit_char_plain [of d] digit_of_digit_char [of d] by simp_all
  show ?case
  proof (cases "ds = []")
    case True
    with c show ?thesis by simp
  next
    case False
    with Cons.prems have "list_all is_digit ds" by simp
    from Cons.IH [OF this False, of "10 * acc + d" True] c show ?thesis by simp
  qed
qed

lemma foldl_digits: "foldl (\<lambda>a c. 10 * a + the (digit_of c)) 0 (digits n) = n"
proof (induction n rule: digits.induct)
  case (1 n)
  show ?case
  proof (cases "n < 10")
    case True
    then show ?thesis by (simp add: digits.simps [of n] digit_of_digit_char)
  next
    case False
    have "n mod 10 < 10" by simp
    then have "digit_of (digit_char (n mod 10)) = Some (n mod 10)"
      by (rule digit_of_digit_char)
    with "1.IH" False show ?thesis by (simp add: digits.simps [of n])
  qed
qed

lemma decimal_of_digits: "decimal 0 b (digits n) = Some n"
  using decimal_digits [of "digits n" 0 b] digits_are_digits [of n] foldl_digits [of n]
  by simp

lemma strip_plain:
  assumes "s \<noteq> []" "\<not> isspace (hd s)" "\<not> isspace (last s)"
  shows "strip s = s"
proof -
  from assms(1,2) have a: "dropWhile isspace s = s" by (cases s) simp_all
  from assms(1,3) have "dropWhile isspace (rev s) = rev s"
    by (cases "rev s") (simp_all add: last_rev [symmetric] hd_rev)
  with a show ?thesis by (simp add: strip_def)
qed

lemma digits_ends:
  "\<not> isspace (hd (digits n)) \<and> \<not> isspace (last (digits n)) \<and>
   hd (digits n) \<noteq> CHR ''-'' \<and> hd (digits n) \<noteq> CHR ''+''"
proof -
  from digits_are_digits [of n] have "is_digit (hd (digits n))" "is_digit (last (digits n))"
    by (auto simp: list_all_iff)
  then obtain d e where d: "d < 10" "hd (digits n) = digit_char d"
    and e: "e < 10" "last (digits n) = digit_char e"
    by (auto simp: is_digit_def)
  from digit_char_plain [OF d(1)] digit_char_plain [OF e(1)] d(2) e(2) show ?thesis by simp
qed

text \<open>A count that the program wrote is read back as the same number.\<close>

lemma int_py_str_int: "int_py (str_int n) = Inr n"
proof (cases "n < 0")
  case True
  let ?ds = "digits (nat (- n))"
  have ne: "?ds \<noteq> []" using digits_are_digits by simp
  then have "last (CHR ''-'' # ?ds) = last ?ds" by simp
  then have "strip (CHR ''-'' # ?ds) = CHR ''-'' # ?ds"
    using digits_ends [of "nat (- n)"] by (intro strip_plain) (simp_all add: isspace_def)
  then show ?thesis
    using True decimal_of_digits [of False "nat (- n)"] by (simp add: int_py_def str_int_def)
next
  case False
  let ?ds = "digits (nat n)"
  obtain c cs where c: "?ds = c # cs" using digits_are_digits [of "nat n"] by (cases ?ds) auto
  have "strip ?ds = ?ds"
    using digits_ends [of "nat n"] digits_are_digits [of "nat n"] by (intro strip_plain) simp_all
  moreover have "c \<noteq> CHR ''-''" "c \<noteq> CHR ''+''" using digits_ends [of "nat n"] c by simp_all
  moreover have "decimal 0 False (c # cs) = Some (nat n)"
    using decimal_of_digits [of False "nat n"] c by simp
  ultimately show ?thesis using False c by (simp add: int_py_def str_int_def)
qed

subsection \<open>Reading back what was written\<close>

lemma read_mistakes_written: "read_mistakes (map writerow ms) = Inr ms"
  by (induction ms) (simp_all add: writerow_def int_py_str_int)

lemma load_mistakes_written:
  "load_mistakes (writerows ms s) = Inr (Some ms, writerows ms s)"
  by (simp add: load_mistakes_def writerows_def read_mistakes_written)

lemma load_mistakes_Some:
  "load_mistakes s = Inr (Some ms, s1) \<Longrightarrow> s1 = s \<and> mistake_file s \<noteq> None"
  by (auto simp: load_mistakes_def split: option.splits sum.splits)

text \<open>
  What \<open>add_mistake\<close> makes of the loaded rows: the list after the loop and the
  \<^verbatim>\<open>append\<close> that follows it.
\<close>

definition upserted ::
  "string \<Rightarrow> string \<Rightarrow> string \<Rightarrow> string \<Rightarrow> string \<Rightarrow> int Mistake list \<Rightarrow> int Mistake list"
where
  "upserted w k ca ua now ms =
     (case update_existing w k ca ua now ms of
        (updated, mistake_updated) \<Rightarrow>
          if mistake_updated then updated else ms @ [new_mistake w k ca ua now])"

lemma add_mistake_loaded:
  assumes "load_mistakes s = Inr (Some ms, s1)"
  shows "add_mistake w k ca ua s =
     Inr (writerows (upserted w k ca ua (clock s 0) ms) (s\<lparr>clock := (\<lambda>n. clock s (Suc n))\<rparr>))"
proof -
  from load_mistakes_Some [OF assms] have "s1 = s" by simp
  with assms show ?thesis
    by (simp add: add_mistake_def datetime_now_def upserted_def split: prod.splits)
qed

definition same_key :: "string \<Rightarrow> string \<Rightarrow> 'a MistakeReview_scheme \<Rightarrow> bool" where
  "same_key w k m = (word m = w \<and> kana m = k)"

lemma update_existing_miss:
  "\<not> list_ex (same_key w k) ms \<Longrightarrow> update_existing w k ca ua now ms = (ms, False)"
  by (induction ms) (auto simp: same_key_def)


text \<open>
  A concrete store: one row, for the word \<open>neko\<close>, missed once. The other parts of the
  world are fixed; \<open>store_world\<close> takes the mistake file.
\<close>

definition neko :: "string Mistake" where
  "neko = \<lparr>word = ''neko'', kana = ''ne-ko'', correct_answer = ''cat'', user_answer = ''dog'',
      mistake_count = ''1'', last_mistake_date = ''25-05-01 10:00:00''\<rparr>"

definition store_world :: "string Mistake list option \<Rightarrow> world" where
  "store_world f = \<lparr>vocab_files = Map.empty, mistake_file = f, progress_file = None,
      stdin = [], rng = (\<lambda>_. 0), clock = (\<lambda>_. ''25-06-01 12:00:00''), stdout = []\<rparr>"

lemmas numeral_simps =
  int_py_def strip_def isspace_def digit_of_def str_int_def digit_char_def




text \<open>
  C10. \<open>remove_mistake\<close> on a store that holds the word: the row is removed from the
  file, and the value returned is \<open>False\<close>, since the two lengths compared are those of
  the same unchanged list.
\<close>

theorem remove_mistake_returns_False:
  "\<exists>s'. remove_mistake ''neko'' (store_world (Some [neko])) = Inr (False, s') \<and>
        mistake_file s' = Some []"
  by (simp add: remove_mistake_def load_mistakes_def writerows_def store_world_def neko_def
      numeral_simps)

section \<open>Question generation\<close>

lemma shuffle_loop_mset:
  "i < length x \<Longrightarrow> mset (fst (shuffle_loop i x s)) = mset x"
proof (induction i x s rule: shuffle_loop.induct)
  case (1 i x s)
  show ?case
  proof (cases "i = 0")
    case True
    then show ?thesis by (simp add: shuffle_loop.simps)
  next
    case False
    obtain j s1 where r: "randbelow (i + 1) s = (j, s1)" by (cases "randbelow (i + 1) s")
    then have j: "j < i + 1" using False by (auto simp: randbelow_def)
    with "1.prems" have jl: "j < length x" by simp
    have len: "i - 1 < length (x[i := x ! j, j := x ! i])" using "1.prems" by simp
    have "mset (fst (shuffle_loop (i - 1) (x[i := x ! j, j := x ! i]) s1)) =
          mset (x[i := x ! j, j := x ! i])"
      using "1.IH" [OF False r [symmetric] len] .
    also have "\<dots> = mset x" using "1.prems" jl by (simp add: mset_swap)
    finally show ?thesis using False r by (simp add: shuffle_loop.simps [of i])
  qed
qed

lemma shuffle_mset: "mset (fst (shuffle x s)) = mset x"
proof (cases x)
  case Nil
  then show ?thesis by (simp add: shuffle_def shuffle_loop.simps)
next
  case (Cons a list)
  then show ?thesis by (simp add: shuffle_def shuffle_loop_mset)
qed

lemma shuffle_length: "length (fst (shuffle x s)) = length x"
  using shuffle_mset [of x s] by (metis size_mset)

lemma shuffle_set: "set (fst (shuffle x s)) = set x"
  using shuffle_mset [of x s] by (metis set_mset_mset)


lemma wrong_options_of_total:
  "\<forall>c \<in> set pool. c ot \<noteq> None \<Longrightarrow> \<exists>ws. wrong_options_of ot ca pool = Inr ws"
  by (induction pool) (auto split: option.splits sum.splits)

lemma make_options_mset:
  "\<exists>shuffled. mset shuffled = mset ws \<and>
     mset (fst (make_options ca ws s)) = mset (ca # drop (length shuffled - 3) shuffled)"
proof -
  obtain shuffled s1 where r: "shuffle ws s = (shuffled, s1)" by (cases "shuffle ws s")
  then have "mset shuffled = mset ws" using shuffle_mset [of ws s] by simp
  moreover have "mset (fst (make_options ca ws s)) = mset (ca # drop (length shuffled - 3) shuffled)"
    using r by (simp add: make_options_def shuffle_mset)
  ultimately show ?thesis by blast
qed



lemma make_options_set:
  "set (fst (make_options ca ws s)) \<subseteq> insert ca (set ws)"
proof -
  from make_options_mset [of ws ca s] obtain shuffled where
    m: "mset shuffled = mset ws"
       "mset (fst (make_options ca ws s)) = mset (ca # drop (length shuffled - 3) shuffled)"
    by blast
  from m(1) have "set shuffled = set ws" by (metis set_mset_mset)
  moreover from m(2) have "set (fst (make_options ca ws s)) = set (ca # drop (length shuffled - 3) shuffled)"
    by (metis set_mset_mset)
  ultimately show ?thesis using set_drop_subset [of "length shuffled - 3" shuffled] by auto
qed


text \<open>Small content files: five vocabulary rows, and rows of the character file.\<close>

definition vocab :: "string \<Rightarrow> string \<Rightarrow> string \<Rightarrow> row" where
  "vocab kanji kana' meaning = [''Kanji'' \<mapsto> kanji, ''Kana'' \<mapsto> kana', ''Meaning'' \<mapsto> meaning]"

definition character :: "string \<Rightarrow> string \<Rightarrow> row" where
  "character c reading = [''Character'' \<mapsto> c, ''Correct Answer'' \<mapsto> reading]"

definition animals :: "row list" where
  "animals = [vocab ''neko'' ''ne-ko'' ''cat'', vocab ''inu'' ''i-nu'' ''dog'',
     vocab ''sakana'' ''sa-ka-na'' ''fish'', vocab ''tori'' ''to-ri'' ''bird'',
     vocab ''ushi'' ''u-shi'' ''cow'']"


section \<open>Files that are short or missing\<close>

text \<open>
  A world for a quiz: the content files given, an empty mistake file, no progress file,
  the lines the user will type, and a generator whose draws are all 0.
\<close>

definition quiz_world :: "(string \<times> row list) list \<Rightarrow> string list \<Rightarrow> world" where
  "quiz_world files lines =
     \<lparr>vocab_files = map_of files, mistake_file = Some [], progress_file = None,
      stdin = lines, rng = (\<lambda>_. 0), clock = (\<lambda>_. ''25-06-01 12:00:00''), stdout = []\<rparr>"

text \<open>
  C2, as the code has it. When the content file exists and has fewer than 10 rows,
  \<^verbatim>\<open>random.sample\<close> raises \<^verbatim>\<open>ValueError\<close>; neither quiz tests the length before
  or catches the exception, so the session ends with it, whatever the rest of the world
  is (the lines typed, the other files, the generator).
\<close>

theorem quiz_sampling_unguarded:
  "(load_jlpt_vocab level s = (Some all_vocabs, s1) \<and> length all_vocabs < 10 \<longrightarrow>
      run_jlpt_quiz level s = Inl ValueError) \<and>
   (load_characters s = (Some all_characters, s2) \<and> length all_characters < 10 \<longrightarrow>
      run_character_quiz s = Inl ValueError)"
  by (simp add: run_jlpt_quiz_def run_character_quiz_def sample_def)

theorem quiz_sampling_unguarded_witness:
  "load_jlpt_vocab ''N5'' (quiz_world [(''data/jlpt_n5.csv'', animals)] []) =
     (Some animals, quiz_world [(''data/jlpt_n5.csv'', animals)] []) \<and>
   length animals < 10 \<and>
   run_jlpt_quiz ''N5'' (quiz_world [(''data/jlpt_n5.csv'', animals)] []) = Inl ValueError \<and>
   load_characters (quiz_world [(''data/characters.csv'', [character ''a'' ''a''])] []) =
     (Some [character ''a'' ''a''], quiz_world [(''data/characters.csv'', [character ''a'' ''a''])] []) \<and>
   length [character ''a'' ''a''] < 10 \<and>
   run_character_quiz (quiz_world [(''data/characters.csv'', [character ''a'' ''a''])] []) =
     Inl ValueError"
proof -
  have a: "load_jlpt_vocab ''N5'' (quiz_world [(''data/jlpt_n5.csv'', animals)] []) =
     (Some animals, quiz_world [(''data/jlpt_n5.csv'', animals)] [])"
    by (simp add: load_jlpt_vocab_def JLPT_FILES_def quiz_world_def)
  have b: "length animals < 10" by (simp add: animals_def)
  have c: "load_characters (quiz_world [(''data/characters.csv'', [character ''a'' ''a''])] []) =
     (Some [character ''a'' ''a''], quiz_world [(''data/characters.csv'', [character ''a'' ''a''])] [])"
    by (simp add: load_characters_def CHARACTER_FILE_def quiz_world_def)
  have d: "length [character ''a'' ''a''] < 10" by simp
  from quiz_sampling_unguarded [of "''N5''" "quiz_world [(''data/jlpt_n5.csv'', animals)] []"
      animals "quiz_world [(''data/jlpt_n5.csv'', animals)] []"] a b
  have e: "run_jlpt_quiz ''N5'' (quiz_world [(''data/jlpt_n5.csv'', animals)] []) = Inl ValueError"
    by blast
  from quiz_sampling_unguarded [of _ "quiz_world [(''data/characters.csv'', [character ''a'' ''a''])] []"
      _ _ "[character ''a'' ''a'']" "quiz_world [(''data/characters.csv'', [character ''a'' ''a''])] []"] c d
  have f: "run_character_quiz (quiz_world [(''data/characters.csv'', [character ''a'' ''a''])] []) =
     Inl ValueError" by blast
  from a b c d e f show ?thesis by blast
qed

text \<open>
  C2 as stated fails: with five vocabulary rows, and with one character row, the session
  does not end with a message but with the uncaught \<^verbatim>\<open>ValueError\<close>.
\<close>

theorem quiz_sampling_counterexample:
  "run_jlpt_quiz ''N5'' (quiz_world [(''data/jlpt_n5.csv'', animals)] []) = Inl ValueError \<and>
   run_character_quiz (quiz_world [(''data/characters.csv'', [character ''a'' ''a''])] []) =
     Inl ValueError"
  by (simp add: run_jlpt_quiz_def run_character_quiz_def sample_def load_jlpt_vocab_def
      load_characters_def JLPT_FILES_def CHARACTER_FILE_def quiz_world_def animals_def)

text \<open>
  C9. With no mistake file, \<open>load_mistakes\<close> prints the notice and returns \<^verbatim>\<open>None\<close>,
  not an empty list, and creates no file; \<open>add_mistake\<close> and \<open>get_mistake_count\<close> then
  raise \<^verbatim>\<open>TypeError\<close>. With no content file, \<open>load_jlpt_vocab\<close> and
  \<open>load_characters\<close> return \<^verbatim>\<open>None\<close> as well, and a quiz raises \<^verbatim>\<open>TypeError\<close>.
\<close>

theorem missing_file_loads:
  "load_mistakes (store_world None) =
     Inr (None, (store_world None)\<lparr>stdout := [FileNotFound ''data/mistakes.csv'']\<rparr>) \<and>
   mistake_file ((store_world None)\<lparr>stdout := [FileNotFound ''data/mistakes.csv'']\<rparr>) = None \<and>
   add_mistake ''neko'' ''ne-ko'' ''cat'' ''dog'' (store_world None) = Inl TypeError \<and>
   get_mistake_count (store_world None) = Inl TypeError \<and>
   fst (load_jlpt_vocab ''N5'' (store_world None)) = None \<and>
   fst (load_characters (store_world None)) = None \<and>
   run_jlpt_quiz ''N5'' (store_world None) = Inl TypeError"
  by (simp add: load_mistakes_def add_mistake_def get_mistake_count_def load_jlpt_vocab_def
      load_characters_def run_jlpt_quiz_def JLPT_FILES_def store_world_def print_def
      MISTAKE_FILE_def)

section \<open>Mastery\<close>

text \<open>The set of kanji that a mastery dictionary holds for a level.\<close>

definition mastered :: "mastery \<Rightarrow> string \<Rightarrow> string set" where
  "mastered m level = (case map_of m level of None \<Rightarrow> {} | Some vocabs \<Rightarrow> set vocabs)"

lemma set_add_keys: "map fst (set_add level v m) = map fst m"
  by (induction m) (auto simp: set_add_def)

lemma map_of_set_add:
  "map_of (set_add level v m) l =
     (if l = level then map_option (List.insert v) (map_of m level) else map_of m l)"
  by (induction m) (auto simp: set_add_def)

lemma mastered_set_add:
  "map_of m level = Some vs \<Longrightarrow>
   mastered (set_add level v m) l = (if l = level then insert v (mastered m l) else mastered m l)"
  by (simp add: mastered_def map_of_set_add)

lemma add_vocabs_result:
  "add_vocabs level vs m = Inr m' \<Longrightarrow>
   map fst m' = map fst m \<and>
   (\<forall>l. mastered m' l =
      mastered m l \<union> (if l = level then {v \<in> set vs. strip v \<noteq> []} else {}))"
proof (induction vs arbitrary: m)
  case Nil
  then show ?case by simp
next
  case (Cons v vs)
  show ?case
  proof (cases "strip v \<noteq> []")
    case True
    with Cons.prems obtain old where o: "map_of m level = Some old"
      and r: "add_vocabs level vs (set_add level v m) = Inr m'"
      by (auto split: option.splits)
    from Cons.IH [OF r] have
      k: "map fst m' = map fst (set_add level v m)" and
      s: "\<forall>l. mastered m' l = mastered (set_add level v m) l \<union>
             (if l = level then {v \<in> set vs. strip v \<noteq> []} else {})" by auto
    from k have "map fst m' = map fst m" by (simp add: set_add_keys)
    moreover from s True have "\<forall>l. mastered m' l =
      mastered m l \<union> (if l = level then {x \<in> set (v # vs). strip x \<noteq> []} else {})"
      by (auto simp: mastered_set_add [OF o])
    ultimately show ?thesis by blast
  next
    case False
    with Cons.prems have r: "add_vocabs level vs m = Inr m'" by simp
    from Cons.IH [OF r] False show ?thesis by auto
  qed
qed

lemma add_vocabs_total:
  "level \<in> fst ` set m \<Longrightarrow> \<exists>m'. add_vocabs level vs m = Inr m'"
proof (induction vs arbitrary: m)
  case Nil
  then show ?case by simp
next
  case (Cons v vs)
  from Cons.prems obtain old where o: "map_of m level = Some old"
    by (metis domD dom_map_of_conv_image_fst)
  from Cons.prems have "level \<in> fst ` set (set_add level v m)"
    using set_add_keys [of level v m] by (metis set_map)
  from Cons.IH [OF this] Cons.IH [OF Cons.prems] o show ?case by auto
qed

text \<open>What the rows of a progress file contribute to a level: the fields after the
  level that are not blank.\<close>

definition contributed :: "string list list \<Rightarrow> string \<Rightarrow> string set" where
  "contributed rows level = {v. \<exists>vs. level # vs \<in> set rows \<and> v \<in> set vs \<and> strip v \<noteq> []}"

lemma contributed_Nil: "contributed [] l = {}"
  by (simp add: contributed_def)

lemma contributed_Cons:
  "contributed (row # rows) l =
     (case row of [] \<Rightarrow> {} | level # vs \<Rightarrow> if level = l then {v \<in> set vs. strip v \<noteq> []} else {})
     \<union> contributed rows l"
  by (auto simp: contributed_def split: list.splits)

lemma read_progress_lines_result:
  "read_progress_lines rows m = Inr m' \<Longrightarrow>
   map fst m' = map fst m \<and> (\<forall>l. mastered m' l = mastered m l \<union> contributed rows l)"
proof (induction rows arbitrary: m)
  case Nil
  then show ?case by (simp add: contributed_Nil)
next
  case (Cons row rows)
  show ?case
  proof (cases "\<exists>level vocab vocabs. row = level # vocab # vocabs")
    case True
    then obtain level vocab vocabs where row: "row = level # vocab # vocabs" by blast
    with Cons.prems obtain m1 where a: "add_vocabs level (vocab # vocabs) m = Inr m1"
      and r: "read_progress_lines rows m1 = Inr m'"
      by (auto split: sum.splits)
    from add_vocabs_result [OF a] Cons.IH [OF r] row show ?thesis
      by (auto simp: contributed_Cons)
  next
    case False
    with Cons.prems have r: "read_progress_lines rows m = Inr m'"
      by (auto split: list.splits)
    from False have "(case row of [] \<Rightarrow> {} | level # vs \<Rightarrow>
        if level = l then {v \<in> set vs. strip v \<noteq> []} else {}) = {}" for l
      by (cases row; cases "tl row") auto
    with Cons.IH [OF r] show ?thesis by (simp add: contributed_Cons)
  qed
qed

lemma read_progress_lines_total:
  "\<forall>row \<in> set rows. row = [] \<or> hd row \<in> fst ` set m \<Longrightarrow>
   \<exists>m'. read_progress_lines rows m = Inr m'"
proof (induction rows arbitrary: m)
  case Nil
  then show ?case by simp
next
  case (Cons row rows)
  show ?case
  proof (cases "\<exists>level vocab vocabs. row = level # vocab # vocabs")
    case True
    then obtain level vocab vocabs where row: "row = level # vocab # vocabs" by blast
    with Cons.prems have "level \<in> fst ` set m" by auto
    from add_vocabs_total [OF this] obtain m1 where
      a: "add_vocabs level (vocab # vocabs) m = Inr m1" by blast
    from add_vocabs_result [OF a] have "fst ` set m1 = fst ` set m" by (metis set_map)
    with Cons.prems have "\<forall>row \<in> set rows. row = [] \<or> hd row \<in> fst ` set m1" by simp
    from Cons.IH [OF this] row a show ?thesis by auto
  next
    case False
    from Cons.prems have "\<forall>row \<in> set rows. row = [] \<or> hd row \<in> fst ` set m" by simp
    from Cons.IH [OF this] False show ?thesis by (auto split: list.splits)
  qed
qed

lemma mastered_empty: "mastered empty_mastery l = {}"
  by (auto simp: mastered_def empty_mastery_def map_of_map_restrict restrict_map_def
      split: option.splits)

definition rows_of :: "mastery \<Rightarrow> string list list" where
  "rows_of m = map (\<lambda>(l, vocabs). l # vocabs) m"

lemma contributed_rows_of:
  "distinct (map fst m) \<Longrightarrow> contributed (rows_of m) l = {v \<in> mastered m l. strip v \<noteq> []}"
proof -
  assume d: "distinct (map fst m)"
  have "(l # vs \<in> set (rows_of m)) = (map_of m l = Some vs)" for vs
    using d by (auto simp: rows_of_def)
  then show ?thesis by (auto simp: contributed_def mastered_def split: option.splits)
qed

lemma distinct_LEVELS: "distinct LEVELS"
  by (simp add: LEVELS_def)

lemma keys_empty_mastery: "map fst empty_mastery = LEVELS"
  by (simp add: empty_mastery_def comp_def)

text \<open>Loading a file that \<open>add_mastered_vocab\<close> could have written.\<close>

lemma load_written:
  assumes "map fst m = LEVELS" "progress_file s = Some (PROGRESS_HEADER # rows_of m)"
  shows "\<exists>m'. load_mastered_vocabs s = Inr (m', s) \<and> map fst m' = LEVELS \<and>
           (\<forall>l. mastered m' l = {v \<in> mastered m l. strip v \<noteq> []})"
proof -
  have "\<forall>row \<in> set (rows_of m). row = [] \<or> hd row \<in> fst ` set empty_mastery"
  proof
    fix row assume "row \<in> set (rows_of m)"
    then obtain l vs where "(l, vs) \<in> set m" "row = l # vs" by (auto simp: rows_of_def)
    then have "hd row \<in> set (map fst m)" by force
    then show "row = [] \<or> hd row \<in> fst ` set empty_mastery"
      using assms(1) keys_empty_mastery by (metis set_map)
  qed
  from read_progress_lines_total [OF this] obtain m' where
    r: "read_progress_lines (rows_of m) empty_mastery = Inr m'" by blast
  from read_progress_lines_result [OF r] have
    k: "map fst m' = LEVELS" and
    c: "\<forall>l. mastered m' l = contributed (rows_of m) l"
    by (auto simp: keys_empty_mastery mastered_empty)
  have "distinct (map fst m)" using assms(1) distinct_LEVELS by simp
  from contributed_rows_of [OF this] c have
    "\<forall>l. mastered m' l = {v \<in> mastered m l. strip v \<noteq> []}" by simp
  with r k assms(2) show ?thesis by (simp add: load_mastered_vocabs_def)
qed

lemma load_result:
  assumes "load_mastered_vocabs s = Inr (m, w)"
  shows "map fst m = LEVELS \<and> (\<forall>l. \<forall>v \<in> mastered m l. strip v \<noteq> []) \<and>
         (progress_file s \<noteq> None \<longrightarrow> w = s) \<and> (progress_file s = None \<longrightarrow> m = empty_mastery)"
proof (cases "progress_file s")
  case None
  with assms have "m = empty_mastery" by (simp add: load_mastered_vocabs_def)
  with None show ?thesis by (simp add: keys_empty_mastery mastered_empty)
next
  case (Some f)
  with assms obtain header lines where f: "f = header # lines"
    and r: "read_progress_lines lines empty_mastery = Inr m" and w: "w = s"
    by (auto simp: load_mastered_vocabs_def split: list.splits sum.splits)
  from read_progress_lines_result [OF r] have "map fst m = LEVELS"
    and "\<forall>l. mastered m l = contributed lines l"
    by (auto simp: keys_empty_mastery mastered_empty)
  then show ?thesis using Some w by (auto simp: contributed_def)
qed

lemma add_mastered_vocab_cases:
  assumes "add_mastered_vocab level kanji s = Inr (b, s1)"
  shows "(\<not> b \<and> s1 = s \<and> (\<exists>m. load_mastered_vocabs s = Inr (m, s) \<and> kanji \<in> mastered m level)) \<or>
         (b \<and> (\<exists>m w. load_mastered_vocabs s = Inr (m, w) \<and> level \<in> set LEVELS \<and>
                 kanji \<notin> mastered m level \<and>
                 s1 = w\<lparr>progress_file :=
                          Some (PROGRESS_HEADER # rows_of (set_add level kanji m))\<rparr>))"
proof -
  from assms obtain m w vs where l: "load_mastered_vocabs s = Inr (m, w)"
    and v: "map_of m level = Some vs"
    by (auto simp: add_mastered_vocab_def split: sum.splits option.splits)
  note lr = load_result [OF l]
  from v have lev: "level \<in> set LEVELS"
    using lr by (metis map_of_eq_None_iff option.distinct(1) set_map)
  show ?thesis
  proof (cases "kanji \<in> set vs")
    case True
    with assms l v have b: "\<not> b" "s1 = w" by (auto simp: add_mastered_vocab_def)
    have "progress_file s \<noteq> None"
    proof
      assume "progress_file s = None"
      with lr have "m = empty_mastery" by simp
      with v True show False using mastered_empty [of level] by (simp add: mastered_def)
    qed
    with lr have "w = s" by simp
    with b l v True show ?thesis by (auto simp: mastered_def)
  next
    case False
    with assms l v have "b" "s1 = w\<lparr>progress_file :=
        Some (PROGRESS_HEADER # rows_of (set_add level kanji m))\<rparr>"
      by (auto simp: add_mastered_vocab_def rows_of_def)
    with l v False lev show ?thesis by (auto simp: mastered_def)
  qed
qed

text \<open>
  C5. If a call of \<open>add_mastered_vocab level kanji\<close> returns, a second call with the same
  level and kanji returns too, and the mastery loaded after it holds, for every level,
  the same set of kanji as the mastery loaded before it, so the same number of them.
  When the kanji is not blank the second call returns \<open>False\<close> and writes nothing.
  (A blank kanji is written by the first call and dropped by every load, so the second
  call writes the same fields again.)
\<close>

theorem add_mastered_vocab_idempotent:
  assumes "add_mastered_vocab level kanji s = Inr (b, s1)"
  shows "\<exists>b2 s2 m1 m2. add_mastered_vocab level kanji s1 = Inr (b2, s2) \<and>
           load_mastered_vocabs s1 = Inr (m1, s1) \<and>
           load_mastered_vocabs s2 = Inr (m2, s2) \<and>
           (\<forall>l. mastered m2 l = mastered m1 l \<and> card (mastered m2 l) = card (mastered m1 l)) \<and>
           (strip kanji \<noteq> [] \<longrightarrow> \<not> b2 \<and> s2 = s1 \<and> kanji \<in> mastered m1 level)"
proof -
  from add_mastered_vocab_cases [OF assms] show ?thesis
  proof (elim disjE conjE exE)
    fix m
    assume nb: "\<not> b" and s1: "s1 = s" and l: "load_mastered_vocabs s = Inr (m, s)"
      and k: "kanji \<in> mastered m level"
    from assms nb s1 have "add_mastered_vocab level kanji s1 = Inr (False, s1)" by simp
    with l s1 k show ?thesis by auto
  next
    fix m w
    assume b: "b" and l: "load_mastered_vocabs s = Inr (m, w)" and lev: "level \<in> set LEVELS"
      and k: "kanji \<notin> mastered m level"
      and s1: "s1 = w\<lparr>progress_file := Some (PROGRESS_HEADER # rows_of (set_add level kanji m))\<rparr>"
    note lr = load_result [OF l]
    let ?M1 = "set_add level kanji m"
    have k1: "map fst ?M1 = LEVELS" using lr by (simp add: set_add_keys)
    from lev lr obtain vs where v: "map_of m level = Some vs"
      by (metis map_of_eq_None_iff not_Some_eq set_map)
    have f1: "progress_file s1 = Some (PROGRESS_HEADER # rows_of ?M1)" by (simp add: s1)
    from load_written [OF k1 f1] obtain m1 where
      l1: "load_mastered_vocabs s1 = Inr (m1, s1)" and km1: "map fst m1 = LEVELS" and
      c1: "\<forall>l. mastered m1 l = {v \<in> mastered ?M1 l. strip v \<noteq> []}" by blast
    have nb: "\<forall>l. \<forall>v \<in> mastered m l. strip v \<noteq> []" using lr by simp
    have m1: "\<forall>l. mastered m1 l =
        mastered m l \<union> (if l = level \<and> strip kanji \<noteq> [] then {kanji} else {})"
      using c1 nb by (auto simp: mastered_set_add [OF v])
    from lev km1 obtain vs1 where v1: "map_of m1 level = Some vs1"
      by (metis map_of_eq_None_iff not_Some_eq set_map)
    show ?thesis
    proof (cases "kanji \<in> set vs1")
      case True
      with l1 v1 have a2: "add_mastered_vocab level kanji s1 = Inr (False, s1)"
        by (simp add: add_mastered_vocab_def)
      from True v1 have "kanji \<in> mastered m1 level" by (simp add: mastered_def)
      with a2 l1 show ?thesis by auto
    next
      case False
      let ?M2 = "set_add level kanji m1"
      let ?s2 = "s1\<lparr>progress_file := Some (PROGRESS_HEADER # rows_of ?M2)\<rparr>"
      from False l1 v1 have a2: "add_mastered_vocab level kanji s1 = Inr (True, ?s2)"
        by (simp add: add_mastered_vocab_def rows_of_def)
      from False v1 have "kanji \<notin> mastered m1 level" by (simp add: mastered_def)
      with m1 have "kanji \<notin> (if strip kanji \<noteq> [] then {kanji} else {})" by auto
      then have blank: "strip kanji = []" by (cases "strip kanji = []") auto
      have k2: "map fst ?M2 = LEVELS" using km1 by (simp add: set_add_keys)
      have f2: "progress_file ?s2 = Some (PROGRESS_HEADER # rows_of ?M2)" by simp
      from load_written [OF k2 f2] obtain m2 where
        l2: "load_mastered_vocabs ?s2 = Inr (m2, ?s2)" and
        c2: "\<forall>l. mastered m2 l = {v \<in> mastered ?M2 l. strip v \<noteq> []}" by blast
      have nb1: "\<forall>l. \<forall>v \<in> mastered m1 l. strip v \<noteq> []" using c1 by simp
      have "\<forall>l. mastered m2 l = mastered m1 l"
        using c2 nb1 blank by (auto simp: mastered_set_add [OF v1])
      with a2 l1 l2 blank show ?thesis by auto
    qed
  qed
qed

theorem add_mastered_vocab_idempotent_witness:
  "add_mastered_vocab ''N5'' ''neko'' (store_world None) =
     Inr (True, (store_world None)\<lparr>progress_file :=
        Some [[''level'', ''mastered_vocab''], [''N5'', ''neko''], [''N4''], [''N3''],
              [''N2''], [''N1'']]\<rparr>) \<and>
   (\<exists>m1. add_mastered_vocab ''N5'' ''neko'' ((store_world None)\<lparr>progress_file :=
        Some [[''level'', ''mastered_vocab''], [''N5'', ''neko''], [''N4''], [''N3''],
              [''N2''], [''N1'']]\<rparr>) =
      Inr (False, (store_world None)\<lparr>progress_file :=
        Some [[''level'', ''mastered_vocab''], [''N5'', ''neko''], [''N4''], [''N3''],
              [''N2''], [''N1'']]\<rparr>) \<and>
      load_mastered_vocabs ((store_world None)\<lparr>progress_file :=
        Some [[''level'', ''mastered_vocab''], [''N5'', ''neko''], [''N4''], [''N3''],
              [''N2''], [''N1'']]\<rparr>) =
        Inr (m1, (store_world None)\<lparr>progress_file :=
        Some [[''level'', ''mastered_vocab''], [''N5'', ''neko''], [''N4''], [''N3''],
              [''N2''], [''N1'']]\<rparr>) \<and>
      ''neko'' \<in> mastered m1 ''N5'')"
proof -
  let ?s1 = "(store_world None)\<lparr>progress_file :=
        Some [[''level'', ''mastered_vocab''], [''N5'', ''neko''], [''N4''], [''N3''],
              [''N2''], [''N1'']]\<rparr>"
  have a: "add_mastered_vocab ''N5'' ''neko'' (store_world None) = Inr (True, ?s1)"
    by (simp add: add_mastered_vocab_def load_mastered_vocabs_def create_progress_file_def
        empty_mastery_def LEVELS_def PROGRESS_HEADER_def set_add_def store_world_def)
  have n: "strip ''neko'' \<noteq> []"
    by (simp add: strip_def isspace_def)
  from add_mastered_vocab_idempotent [OF a] n a show ?thesis by auto
qed

section \<open>The review session\<close>

lemma get_correct_answer_index_total:
  "x \<in> set xs \<Longrightarrow> \<exists>i. get_correct_answer_index xs x = Inr i"
  by (induction xs) auto

lemma make_options_member: "answer \<in> set (fst (make_options answer ws s))"
proof -
  from make_options_mset [of ws answer s] obtain shuffled where
    "mset (fst (make_options answer ws s)) = mset (answer # drop (length shuffled - 3) shuffled)"
    by blast
  then have "set (fst (make_options answer ws s)) = set (answer # drop (length shuffled - 3) shuffled)"
    by (metis set_mset_mset)
  then show ?thesis by simp
qed

lemma upper_letters:
  "upper ''A'' = ''A''" "upper ''B'' = ''B''" "upper ''C'' = ''C''" "upper ''D'' = ''D''"
  "upper ''Q'' = ''Q''" "upper ''Y'' = ''Y''" "upper ''N'' = ''N''"
  by (simp_all add: upper_def upper_char_def)

lemma get_user_choice_valid:
  assumes "stdin s = line # rest" "upper (strip line) \<in> set (map upper valid)"
  shows "get_user_choice valid s = Inr (upper (strip line), s\<lparr>stdin := rest\<rparr>)"
  using assms by (simp add: get_user_choice_def Let_def)

lemma choice_index_of_letter:
  "c \<in> {''A'', ''B'', ''C'', ''D''} \<Longrightarrow> \<exists>i. choice_index_of c = Inr i"
  by (auto simp: choice_index_of_def ord_def)

text \<open>One question of the review that the user answers with a letter.\<close>

lemma review_body_answer:
  assumes q: "q_no < length mistakes_list"
    and pool: "\<forall>c \<in> set all_content. c ''Meaning'' \<noteq> None"
    and inp: "stdin s = line # rest"
    and ans: "upper (strip line) \<in> {''A'', ''B'', ''C'', ''D''}"
  shows "\<exists>cleared' remaining' s'.
           review_body all_content ''jlpt'' mistakes_list q_no cleared remaining s =
             Inr (Next ((q_no + 1, cleared', remaining'), s')) \<and>
           stdin s' = rest \<and>
           ((cleared' = cleared + 1 \<and> remaining' = remaining) \<or>
            (cleared' = cleared \<and> remaining' = remaining @ [mistakes_list ! q_no]))"
proof -
  let ?m = "mistakes_list ! q_no"
  have f: "review_fields ''jlpt'' ?m = Inr (word ?m, correct_answer ?m, ''Meaning'')"
    by (simp add: review_fields_def)
  from wrong_options_of_total [OF pool, of "correct_answer ?m"] obtain ws where
    w: "wrong_options_of ''Meaning'' (correct_answer ?m) all_content = Inr ws" by blast
  obtain options s1 where m: "make_options (correct_answer ?m) ws s = (options, s1)"
    by (cases "make_options (correct_answer ?m) ws s")
  from make_options_rng_only [of "correct_answer ?m" ws s] m
  have s1: "stdin s1 = stdin s" by auto
  let ?p = "print (ReviewQuestion (q_no + 1) (word ?m) options) s1"
  have "stdin ?p = line # rest" using s1 inp by (simp add: print_def)
  moreover have "upper (strip line) \<in> set (map upper [''A'', ''B'', ''C'', ''D'', ''Q''])"
    using ans by (auto simp: upper_letters)
  ultimately have g: "get_user_choice [''A'', ''B'', ''C'', ''D'', ''Q''] ?p =
      Inr (upper (strip line), ?p\<lparr>stdin := rest\<rparr>)"
    by (rule get_user_choice_valid)
  have nq: "upper (strip line) \<noteq> ''Q''" using ans by auto
  from choice_index_of_letter [OF ans] obtain ci where
    ci: "choice_index_of (upper (strip line)) = Inr ci" by blast
  from make_options_member [of "correct_answer ?m" ws s] m
  have "correct_answer ?m \<in> set options" by simp
  from get_correct_answer_index_total [OF this] obtain i where
    i: "get_correct_answer_index options (correct_answer ?m) = Inr i" by blast
  show ?thesis
    using f w m g nq ci i by (cases "ci = int i") (simp_all add: review_body_def Let_def)
qed

text \<open>The question at which the user types \<open>Q\<close> and confirms with \<open>Y\<close>.\<close>

lemma review_body_quit:
  assumes q: "q_no < length mistakes_list"
    and pool: "\<forall>c \<in> set all_content. c ''Meaning'' \<noteq> None"
    and inp: "stdin s = quit_line # yes_line # rest"
    and quit: "upper (strip quit_line) = ''Q''" and yes: "upper (strip yes_line) = ''Y''"
  shows "\<exists>s'. review_body all_content ''jlpt'' mistakes_list q_no cleared remaining s =
             Inr (Return ((cleared, remaining @ drop q_no mistakes_list, True), s')) \<and>
           stdin s' = rest \<and>
           (\<exists>options. stdout s' =
              stdout s @ [ReviewQuestion (q_no + 1) (word (mistakes_list ! q_no)) options])"
proof -
  let ?m = "mistakes_list ! q_no"
  have f: "review_fields ''jlpt'' ?m = Inr (word ?m, correct_answer ?m, ''Meaning'')"
    by (simp add: review_fields_def)
  from wrong_options_of_total [OF pool, of "correct_answer ?m"] obtain ws where
    w: "wrong_options_of ''Meaning'' (correct_answer ?m) all_content = Inr ws" by blast
  obtain options s1 where m: "make_options (correct_answer ?m) ws s = (options, s1)"
    by (cases "make_options (correct_answer ?m) ws s")
  from make_options_rng_only [of "correct_answer ?m" ws s] m
  have s1: "stdin s1 = stdin s" and o1: "stdout s1 = stdout s" by auto
  let ?p = "print (ReviewQuestion (q_no + 1) (word ?m) options) s1"
  have "stdin ?p = quit_line # yes_line # rest" using s1 inp by (simp add: print_def)
  moreover have "upper (strip quit_line) \<in> set (map upper [''A'', ''B'', ''C'', ''D'', ''Q''])"
    using quit by (simp add: upper_letters)
  ultimately have g: "get_user_choice [''A'', ''B'', ''C'', ''D'', ''Q''] ?p =
      Inr (''Q'', ?p\<lparr>stdin := yes_line # rest\<rparr>)"
    using get_user_choice_valid [of ?p quit_line "yes_line # rest"] quit by simp
  have "stdin (?p\<lparr>stdin := yes_line # rest\<rparr>) = yes_line # rest" by simp
  moreover have "upper (strip yes_line) \<in> set (map upper [''Y'', ''N''])"
    using yes by (simp add: upper_letters)
  ultimately have y: "get_user_choice [''Y'', ''N''] (?p\<lparr>stdin := yes_line # rest\<rparr>) =
      Inr (''Y'', ?p\<lparr>stdin := yes_line # rest, stdin := rest\<rparr>)"
    using get_user_choice_valid [of "?p\<lparr>stdin := yes_line # rest\<rparr>" yes_line rest] yes by simp
  show ?thesis
    using f w m g y o1 by (simp add: review_body_def Let_def print_def)
qed

lemma review_loop_quit:
  assumes pool: "\<forall>c \<in> set all_content. c ''Meaning'' \<noteq> None"
    and quit: "upper (strip quit_line) = ''Q''" and yes: "upper (strip yes_line) = ''Y''"
  shows "\<forall>a \<in> set answers. upper (strip a) \<in> {''A'', ''B'', ''C'', ''D''} \<Longrightarrow>
         q_no + length answers < length mistakes_list \<Longrightarrow>
         stdin s = answers @ quit_line # yes_line # rest \<Longrightarrow>
         \<exists>cleared' kept s' options.
           review_loop all_content ''jlpt'' mistakes_list q_no cleared remaining s =
             Inr ((cleared', remaining @ kept @ drop (q_no + length answers) mistakes_list, True), s') \<and>
           subseq kept (take (length answers) (drop q_no mistakes_list)) \<and>
           cleared' + length kept = cleared + length answers \<and>
           stdin s' = rest \<and>
           last (stdout s') =
             ReviewQuestion (q_no + length answers + 1)
               (word (mistakes_list ! (q_no + length answers))) options"
proof (induction answers arbitrary: q_no cleared remaining s)
  case Nil
  then have q: "q_no < length mistakes_list" and inp: "stdin s = quit_line # yes_line # rest"
    by simp_all
  from review_body_quit [OF q pool inp quit yes, of cleared remaining] obtain s' options where
    "review_body all_content ''jlpt'' mistakes_list q_no cleared remaining s =
       Inr (Return ((cleared, remaining @ drop q_no mistakes_list, True), s'))"
    "stdin s' = rest"
    "stdout s' = stdout s @ [ReviewQuestion (q_no + 1) (word (mistakes_list ! q_no)) options]"
    by blast
  then have "review_loop all_content ''jlpt'' mistakes_list q_no cleared remaining s =
       Inr ((cleared, remaining @ [] @ drop (q_no + length ([]::string list)) mistakes_list, True), s')
     \<and> subseq [] (take (length ([]::string list)) (drop q_no mistakes_list))
     \<and> cleared + length ([]::'a MistakeReview_scheme list) = cleared + length ([]::string list)
     \<and> stdin s' = rest
     \<and> last (stdout s') =
         ReviewQuestion (q_no + length ([]::string list) + 1)
           (word (mistakes_list ! (q_no + length ([]::string list)))) options"
    using q by (simp add: review_loop.simps [of _ _ _ q_no])
  then show ?case by blast
next
  case (Cons a answers)
  then have q: "q_no < length mistakes_list"
    and inp: "stdin s = a # (answers @ quit_line # yes_line # rest)"
    and ans: "upper (strip a) \<in> {''A'', ''B'', ''C'', ''D''}" by simp_all
  from review_body_answer [OF q pool inp ans, of cleared remaining]
  obtain cleared1 remaining1 s1 where
    b: "review_body all_content ''jlpt'' mistakes_list q_no cleared remaining s =
          Inr (Next ((q_no + 1, cleared1, remaining1), s1))"
    and s1: "stdin s1 = answers @ quit_line # yes_line # rest"
    and c: "(cleared1 = cleared + 1 \<and> remaining1 = remaining) \<or>
            (cleared1 = cleared \<and> remaining1 = remaining @ [mistakes_list ! q_no])"
    by blast
  from Cons.prems have a1: "\<forall>a \<in> set answers. upper (strip a) \<in> {''A'', ''B'', ''C'', ''D''}"
    and q1: "(q_no + 1) + length answers < length mistakes_list" by simp_all
  from Cons.IH [OF a1 q1 s1, of cleared1 remaining1] obtain cleared' kept s' options where
    r: "review_loop all_content ''jlpt'' mistakes_list (q_no + 1) cleared1 remaining1 s1 =
          Inr ((cleared', remaining1 @ kept @ drop (q_no + 1 + length answers) mistakes_list, True), s')"
    and k: "subseq kept (take (length answers) (drop (q_no + 1) mistakes_list))"
    and n: "cleared' + length kept = cleared1 + length answers"
    and st: "stdin s' = rest"
    and ev: "last (stdout s') =
        ReviewQuestion (q_no + 1 + length answers + 1)
          (word (mistakes_list ! (q_no + 1 + length answers))) options" by blast
  have l: "review_loop all_content ''jlpt'' mistakes_list q_no cleared remaining s =
        review_loop all_content ''jlpt'' mistakes_list (q_no + 1) cleared1 remaining1 s1"
    using q b by (simp add: review_loop.simps [of _ _ _ q_no])
  have d: "take (length (a # answers)) (drop q_no mistakes_list) =
        mistakes_list ! q_no # take (length answers) (drop (q_no + 1) mistakes_list)"
    using q by (simp add: Cons_nth_drop_Suc [symmetric])
  have ev': "last (stdout s') =
        ReviewQuestion (q_no + length (a # answers) + 1)
          (word (mistakes_list ! (q_no + length (a # answers)))) options"
    using ev by simp
  from c show ?case
  proof
    assume h: "cleared1 = cleared + 1 \<and> remaining1 = remaining"
    have "subseq kept (take (length (a # answers)) (drop q_no mistakes_list))"
      using k d by (simp add: list_emb_Cons)
    moreover have "review_loop all_content ''jlpt'' mistakes_list q_no cleared remaining s =
        Inr ((cleared', remaining @ kept @ drop (q_no + length (a # answers)) mistakes_list, True), s')"
      using l r h by simp
    moreover have "cleared' + length kept = cleared + length (a # answers)" using n h by simp
    ultimately show ?thesis using st ev' by blast
  next
    assume h: "cleared1 = cleared \<and> remaining1 = remaining @ [mistakes_list ! q_no]"
    have "subseq (mistakes_list ! q_no # kept) (take (length (a # answers)) (drop q_no mistakes_list))"
      using k d by simp
    moreover have "review_loop all_content ''jlpt'' mistakes_list q_no cleared remaining s =
        Inr ((cleared', remaining @ (mistakes_list ! q_no # kept) @
               drop (q_no + length (a # answers)) mistakes_list, True), s')"
      using l r h by simp
    moreover have "cleared' + length (mistakes_list ! q_no # kept) = cleared + length (a # answers)"
      using n h by simp
    ultimately show ?thesis using st ev' by blast
  qed
qed

lemma shuffle_stdin: "stdin (snd (shuffle x s)) = stdin s"
  using shuffle_rng_only [of x s] by auto

lemma run_mistake_review_quit:
  assumes "\<forall>c \<in> set all_content. c ''Meaning'' \<noteq> None"
    and "\<forall>a \<in> set answers. upper (strip a) \<in> {''A'', ''B'', ''C'', ''D''}"
    and "upper (strip quit_line) = ''Q''" and "upper (strip yes_line) = ''Y''"
    and "length answers < length mistakes_list"
    and "stdin s = answers @ quit_line # yes_line # rest"
  shows "\<exists>cleared kept shuffled s' options.
           run_mistake_review all_content ''jlpt'' mistakes_list s =
             Inr (((cleared, kept @ drop (length answers) shuffled, True), shuffled), s') \<and>
           mset shuffled = mset mistakes_list \<and>
           subseq kept (take (length answers) shuffled) \<and>
           cleared + length kept = length answers \<and>
           stdin s' = rest \<and>
           last (stdout s') =
             ReviewQuestion (length answers + 1) (word (shuffled ! length answers)) options"
proof -
  obtain shuffled s1 where sh: "shuffle mistakes_list s = (shuffled, s1)"
    by (cases "shuffle mistakes_list s")
  then have ms: "mset shuffled = mset mistakes_list" using shuffle_mset [of mistakes_list s] by simp
  then have len: "length shuffled = length mistakes_list" by (metis size_mset)
  from sh have s1: "stdin s1 = answers @ quit_line # yes_line # rest"
    using shuffle_stdin [of mistakes_list s] assms(6) by simp
  have q: "0 + length answers < length shuffled" using assms(5) len by simp
  from review_loop_quit [OF assms(1,3,4,2) q s1, of 0 "[]"] obtain cleared kept s' options where
    "review_loop all_content ''jlpt'' shuffled 0 0 [] s1 =
       Inr ((cleared, [] @ kept @ drop (0 + length answers) shuffled, True), s')"
    "subseq kept (take (length answers) (drop 0 shuffled))"
    "cleared + length kept = 0 + length answers" "stdin s' = rest"
    "last (stdout s') =
       ReviewQuestion (0 + length answers + 1) (word (shuffled ! (0 + length answers))) options"
    by blast
  then show ?thesis using sh ms by (simp add: run_mistake_review_def)
qed

text \<open>
  Every way out of the loop body. A \<^verbatim>\<open>return\<close> happens only at a confirmed quit, with
  the flag set, and the question printed last is the one at \<open>q_no\<close>; a pass that goes
  on either stays at the question (a quit that was not confirmed) or moves to the next
  one, keeping the mistake or not.
\<close>

lemma get_user_choice_frame:
  "get_user_choice valid s = Inr (choice, s') \<Longrightarrow> \<exists>rest. s' = s\<lparr>stdin := rest\<rparr>"
  by (auto simp: get_user_choice_def split: sum.splits)

lemma review_body_cases:
  assumes "review_body all_content quiz_type mistakes_list q_no c r s = Inr out"
  shows "(\<exists>s' p options. out = Return ((c, r @ drop q_no mistakes_list, True), s') \<and>
            stdout s' = stdout s @ [ReviewQuestion (q_no + 1) p options]) \<or>
         (\<exists>s'. out = Next ((q_no, c, r), s')) \<or>
         (\<exists>s'. out = Next ((q_no + 1, c + 1, r), s')) \<or>
         (\<exists>s'. out = Next ((q_no + 1, c, r @ [mistakes_list ! q_no]), s'))"
proof -
  from assms obtain question_prompt answer option_type wrong_options where
    f: "review_fields quiz_type (mistakes_list ! q_no) = Inr (question_prompt, answer, option_type)"
    and w: "wrong_options_of option_type answer all_content = Inr wrong_options"
    by (auto simp: review_body_def Let_def split: sum.splits)
  obtain options s1 where m: "make_options answer wrong_options s = (options, s1)"
    by (cases "make_options answer wrong_options s")
  from make_options_rng_only [of answer wrong_options s] m have s1: "stdout s1 = stdout s" by auto
  from assms f w m obtain user_choice s2 where
    g: "get_user_choice [''A'', ''B'', ''C'', ''D'', ''Q'']
          (print (ReviewQuestion (q_no + 1) question_prompt options) s1) = Inr (user_choice, s2)"
    by (auto simp: review_body_def Let_def split: sum.splits)
  from get_user_choice_frame [OF g] s1
  have s2: "stdout s2 = stdout s @ [ReviewQuestion (q_no + 1) question_prompt options]"
    by (auto simp: print_def)
  show ?thesis
  proof (cases "user_choice = ''Q''")
    case True
    with assms f w m g obtain user_confirmation s3 where
      y: "get_user_choice [''Y'', ''N''] s2 = Inr (user_confirmation, s3)"
      by (auto simp: review_body_def Let_def split: sum.splits)
    from get_user_choice_frame [OF y] s2
    have s3: "stdout s3 = stdout s @ [ReviewQuestion (q_no + 1) question_prompt options]"
      by auto
    from assms f w m g True y s3 show ?thesis
      by (cases "user_confirmation = ''Y''") (auto simp: review_body_def Let_def)
  next
    case False
    with assms f w m g show ?thesis
      by (auto simp: review_body_def Let_def split: sum.splits if_splits)
  qed
qed

lemma subseq_take_Suc:
  assumes "q < length xs" "subseq r (take q xs)"
  shows "subseq r (take (Suc q) xs)" "subseq (r @ [xs ! q]) (take (Suc q) xs)"
proof -
  have t: "take (Suc q) xs = take q xs @ [xs ! q]"
    using assms(1) by (simp add: take_Suc_conv_app_nth)
  show "subseq r (take (Suc q) xs)"
    using assms(2) unfolding t by (rule list_emb_append2 [where zs = "[xs ! q]"] subseq_rev_drop_many)
     
  show "subseq (r @ [xs ! q]) (take (Suc q) xs)"
    using assms(2) unfolding t by (simp add: list_emb_append_mono)
qed

lemma review_loop_flag:
  "review_loop all_content quiz_type mistakes_list q_no c r s = Inr ((c', remaining, True), s') \<Longrightarrow>
   subseq r (take q_no mistakes_list) \<Longrightarrow>
   \<exists>i p options kept.
     stdout s' \<noteq> [] \<and> last (stdout s') = ReviewQuestion i p options \<and>
     0 < i \<and> i \<le> length mistakes_list \<and>
     remaining = kept @ drop (i - 1) mistakes_list \<and>
     subseq kept (take (i - 1) mistakes_list)"
proof (induction all_content quiz_type mistakes_list q_no c r s rule: review_loop.induct)
  case (1 all_content quiz_type mistakes_list q_no c r s)
  show ?case
  proof (cases "q_no < length mistakes_list")
    case False
    with "1.prems"(1) show ?thesis by (simp add: review_loop.simps [of _ _ _ q_no])
  next
    case True
    with "1.prems"(1) obtain out where
      b: "review_body all_content quiz_type mistakes_list q_no c r s = Inr out"
      by (auto simp: review_loop.simps [of _ _ _ q_no] split: sum.splits)
    from review_body_cases [OF b] show ?thesis
    proof (elim disjE exE conjE)
      fix s1 p options
      assume o: "out = Return ((c, r @ drop q_no mistakes_list, True), s1)"
        and e: "stdout s1 = stdout s @ [ReviewQuestion (q_no + 1) p options]"
      from "1.prems"(1) True b o have "remaining = r @ drop q_no mistakes_list" "s' = s1"
        by (simp_all add: review_loop.simps [of _ _ _ q_no])
      with e True "1.prems"(2) have
        "stdout s' \<noteq> [] \<and> last (stdout s') = ReviewQuestion (q_no + 1) p options \<and>
         0 < q_no + 1 \<and> q_no + 1 \<le> length mistakes_list \<and>
         remaining = r @ drop (q_no + 1 - 1) mistakes_list \<and>
         subseq r (take (q_no + 1 - 1) mistakes_list)"
        by simp
      then show ?thesis by - ((rule exI)+, assumption)
    next
      fix s1
      assume o: "out = Next ((q_no, c, r), s1)"
      from "1.prems"(1) True b o have
        "review_loop all_content quiz_type mistakes_list q_no c r s1 = Inr ((c', remaining, True), s')"
        by (simp add: review_loop.simps [of _ _ _ q_no _ _ s])
      from "1.IH" [OF True b [unfolded o] refl refl refl refl this "1.prems"(2)] show ?thesis .
    next
      fix s1
      assume o: "out = Next ((q_no + 1, c + 1, r), s1)"
      from "1.prems"(1) True b o have
        "review_loop all_content quiz_type mistakes_list (q_no + 1) (c + 1) r s1 =
           Inr ((c', remaining, True), s')"
        by (simp add: review_loop.simps [of _ _ _ q_no _ _ s])
      moreover have "subseq r (take (q_no + 1) mistakes_list)"
        using subseq_take_Suc(1) [OF True "1.prems"(2)] by simp
      ultimately show ?thesis
        using "1.IH" [OF True b [unfolded o] refl refl refl refl] by blast
    next
      fix s1
      assume o: "out = Next ((q_no + 1, c, r @ [mistakes_list ! q_no]), s1)"
      from "1.prems"(1) True b o have
        "review_loop all_content quiz_type mistakes_list (q_no + 1) c (r @ [mistakes_list ! q_no]) s1 =
           Inr ((c', remaining, True), s')"
        by (simp add: review_loop.simps [of _ _ _ q_no _ _ s])
      moreover have "subseq (r @ [mistakes_list ! q_no]) (take (q_no + 1) mistakes_list)"
        using subseq_take_Suc(2) [OF True "1.prems"(2)] by simp
      ultimately show ?thesis
        using "1.IH" [OF True b [unfolded o] refl refl refl refl] by blast
    qed
  qed
qed

lemma run_mistake_review_flag:
  assumes "run_mistake_review all_content quiz_type mistakes_list s =
             Inr (((cleared, remaining, True), shuffled), s')"
  shows "\<exists>i p options kept.
     last (stdout s') = ReviewQuestion i p options \<and>
     0 < i \<and> i \<le> length shuffled \<and>
     remaining = kept @ drop (i - 1) shuffled \<and>
     subseq kept (take (i - 1) shuffled) \<and>
     mset shuffled = mset mistakes_list"
proof -
  obtain sh s1 where sh: "shuffle mistakes_list s = (sh, s1)"
    by (cases "shuffle mistakes_list s")
  with assms have l: "review_loop all_content quiz_type sh 0 0 [] s1 =
      Inr ((cleared, remaining, True), s')" and e: "shuffled = sh"
    by (auto simp: run_mistake_review_def split: sum.splits)
  from sh have "mset sh = mset mistakes_list" using shuffle_mset [of mistakes_list s] by simp
  with review_loop_flag [OF l] e show ?thesis by auto
qed

text \<open>
  C6. A review over \<open>mistakes_list\<close>, which the function first shuffles.
  First part: when the user answers the first \<open>i - 1\<close> questions (each line one of the
  letters A to D) and at question \<open>i\<close> types \<open>Q\<close> and confirms with \<open>Y\<close>, the function
  returns; the question printed last is number \<open>i\<close>; the flag is \<open>True\<close>; and the
  remaining list is the mistakes kept from the questions answered before, followed by
  all the mistakes from position \<open>i\<close> to the end of the shuffled list, in that order.
  Second part, for every session whatever was typed: when the function returns with the
  flag \<open>True\<close>, the question printed last has some number \<open>i\<close>, and the remaining list
  ends with all the mistakes from position \<open>i\<close> to the end of the shuffled list. (The
  index \<open>length answers\<close> is \<open>i - 1\<close>, counting from 0.)
\<close>

theorem review_quit_keeps_rest:
  "((\<forall>c \<in> set all_content. c ''Meaning'' \<noteq> None) \<and>
    (\<forall>a \<in> set answers. upper (strip a) \<in> {''A'', ''B'', ''C'', ''D''}) \<and>
    upper (strip quit_line) = ''Q'' \<and> upper (strip yes_line) = ''Y'' \<and>
    length answers < length mistakes_list \<and>
    stdin s = answers @ quit_line # yes_line # rest \<longrightarrow>
    (\<exists>cleared kept shuffled s' options.
       run_mistake_review all_content ''jlpt'' mistakes_list s =
         Inr (((cleared, kept @ drop (length answers) shuffled, True), shuffled), s') \<and>
       mset shuffled = mset mistakes_list \<and>
       subseq kept (take (length answers) shuffled) \<and>
       cleared + length kept = length answers \<and>
       stdin s' = rest \<and>
       last (stdout s') =
         ReviewQuestion (length answers + 1) (word (shuffled ! length answers)) options)) \<and>
   (run_mistake_review pool quiz_type mistakes_list t =
      Inr (((cleared, remaining, True), shuffled), t') \<longrightarrow>
    (\<exists>i p options kept.
       last (stdout t') = ReviewQuestion i p options \<and>
       0 < i \<and> i \<le> length shuffled \<and>
       remaining = kept @ drop (i - 1) shuffled \<and>
       subseq kept (take (i - 1) shuffled) \<and>
       mset shuffled = mset mistakes_list))"
  using run_mistake_review_quit [of all_content answers quit_line yes_line mistakes_list s rest]
    run_mistake_review_flag [of pool quiz_type mistakes_list t cleared remaining shuffled t']
  by blast

definition missed :: "string \<Rightarrow> string \<Rightarrow> string \<Rightarrow> string \<Rightarrow> MistakeReview" where
  "missed w k ca ua = \<lparr>word = w, kana = k, correct_answer = ca, user_answer = ua\<rparr>"

definition five_mistakes :: "MistakeReview list" where
  "five_mistakes =
     [missed ''neko'' ''ne-ko'' ''cat'' ''dog'', missed ''inu'' ''i-nu'' ''dog'' ''cat'',
      missed ''sakana'' ''sa-ka-na'' ''fish'' ''cow'', missed ''tori'' ''to-ri'' ''bird'' ''fish'',
      missed ''ushi'' ''u-shi'' ''cow'' ''bird'']"

theorem review_quit_keeps_rest_witness:
  "length [''a''] < length five_mistakes \<and>
   stdin (quiz_world [] [''a'', ''q'', ''y'', ''x'']) = [''a''] @ ''q'' # ''y'' # [''x''] \<and>
   (\<exists>cleared kept shuffled s' options.
      run_mistake_review animals ''jlpt'' five_mistakes (quiz_world [] [''a'', ''q'', ''y'', ''x'']) =
        Inr (((cleared, kept @ drop (length [''a'']) shuffled, True), shuffled), s') \<and>
      mset shuffled = mset five_mistakes \<and>
      subseq kept (take (length [''a'']) shuffled) \<and>
      cleared + length kept = length [''a''] \<and>
      stdin s' = [''x''] \<and>
      last (stdout s') =
        ReviewQuestion (length [''a''] + 1) (word (shuffled ! length [''a''])) options \<and>
      (\<exists>i p options' kept'.
         last (stdout s') = ReviewQuestion i p options' \<and>
         0 < i \<and> i \<le> length shuffled \<and>
         kept @ drop (length [''a'']) shuffled = kept' @ drop (i - 1) shuffled \<and>
         subseq kept' (take (i - 1) shuffled)))"
proof -
  let ?w = "quiz_world [] [''a'', ''q'', ''y'', ''x'']"
  have p: "\<forall>c \<in> set animals. c ''Meaning'' \<noteq> None"
    by (simp add: animals_def vocab_def)
  have a: "\<forall>a \<in> set [''a'']. upper (strip a) \<in> {''A'', ''B'', ''C'', ''D''}"
    by (simp add: upper_def upper_char_def strip_def isspace_def)
  have q: "upper (strip ''q'') = ''Q''" "upper (strip ''y'') = ''Y''"
    by (simp_all add: upper_def upper_char_def strip_def isspace_def)
  have l: "length [''a''] < length five_mistakes" by (simp add: five_mistakes_def)
  have i: "stdin ?w = [''a''] @ ''q'' # ''y'' # [''x'']"
    by (simp add: quiz_world_def)
  from review_quit_keeps_rest [where all_content = animals and answers = "[''a'']"
      and quit_line = "''q''" and yes_line = "''y''" and mistakes_list = five_mistakes
      and s = ?w and rest = "[''x'']"]
    p a q l i
  obtain cleared kept shuffled s' options where
    r: "run_mistake_review animals ''jlpt'' five_mistakes ?w =
          Inr (((cleared, kept @ drop (length [''a'']) shuffled, True), shuffled), s')"
       "mset shuffled = mset five_mistakes"
       "subseq kept (take (length [''a'']) shuffled)"
       "cleared + length kept = length [''a'']"
       "stdin s' = [''x'']"
       "last (stdout s') =
          ReviewQuestion (length [''a''] + 1) (word (shuffled ! length [''a''])) options"
    by blast
  from review_quit_keeps_rest [where pool = animals and quiz_type = "''jlpt''"
      and mistakes_list = five_mistakes and t = ?w and cleared = cleared
      and remaining = "kept @ drop (length [''a'']) shuffled" and shuffled = shuffled
      and t' = s'] r(1)
  have "\<exists>i p options' kept'.
         last (stdout s') = ReviewQuestion i p options' \<and>
         0 < i \<and> i \<le> length shuffled \<and>
         kept @ drop (length [''a'']) shuffled = kept' @ drop (i - 1) shuffled \<and>
         subseq kept' (take (i - 1) shuffled)"
    by blast
  with r l i show ?thesis by blast
qed

section \<open>What a session persists\<close>

definition key_of :: "'a MistakeReview_scheme \<Rightarrow> string \<times> string" where
  "key_of m = (word m, kana m)"

lemma same_key_key_of: "same_key w k m = (key_of m = (w, k))"
  by (auto simp: same_key_def key_of_def)

lemma list_ex_same_key: "list_ex (same_key w k) ms = ((w, k) \<in> set (map key_of ms))"
  by (induction ms) (auto simp: same_key_key_of)

subsection \<open>The review touches no file\<close>

definition same_files :: "world \<Rightarrow> world \<Rightarrow> bool" where
  "same_files s s' =
     (vocab_files s' = vocab_files s \<and> mistake_file s' = mistake_file s \<and>
      progress_file s' = progress_file s \<and> clock s' = clock s)"

lemma same_files_refl: "same_files s s"
  by (simp add: same_files_def)

lemma same_files_trans: "same_files s s1 \<Longrightarrow> same_files s1 s2 \<Longrightarrow> same_files s s2"
  by (simp add: same_files_def)

lemma make_options_same_files: "same_files s (snd (make_options answer ws s))"
  using make_options_rng_only [of answer ws s] by (auto simp: same_files_def)

lemma shuffle_same_files: "same_files s (snd (shuffle x s))"
  using shuffle_rng_only [of x s] by (auto simp: same_files_def)

lemma get_user_choice_same_files:
  "get_user_choice valid s = Inr (choice, s') \<Longrightarrow> same_files s s'"
  by (auto simp: get_user_choice_def same_files_def split: sum.splits)

fun iter_world :: "('st \<times> world, 'r \<times> world) iter \<Rightarrow> world" where
  "iter_world (Next (st, s)) = s"
| "iter_world (Return (r, s)) = s"

lemma review_body_same_files:
  assumes "review_body all_content quiz_type mistakes_list q_no c r s = Inr out"
  shows "same_files s (iter_world out)"
proof -
  from assms obtain question_prompt answer option_type wrong_options where
    f: "review_fields quiz_type (mistakes_list ! q_no) = Inr (question_prompt, answer, option_type)"
    and w: "wrong_options_of option_type answer all_content = Inr wrong_options"
    by (auto simp: review_body_def Let_def split: sum.splits)
  obtain options s1 where m: "make_options answer wrong_options s = (options, s1)"
    by (cases "make_options answer wrong_options s")
  from make_options_same_files [of s answer wrong_options] m have s1: "same_files s s1" by simp
  let ?p = "print (ReviewQuestion (q_no + 1) question_prompt options) s1"
  from s1 have p: "same_files s ?p" by (simp add: same_files_def print_def)
  from assms f w m obtain user_choice s2 where
    g: "get_user_choice [''A'', ''B'', ''C'', ''D'', ''Q''] ?p = Inr (user_choice, s2)"
    by (auto simp: review_body_def Let_def split: sum.splits)
  from same_files_trans [OF p get_user_choice_same_files [OF g]] have s2: "same_files s s2" .
  show ?thesis
  proof (cases "user_choice = ''Q''")
    case True
    with assms f w m g obtain user_confirmation s3 where
      y: "get_user_choice [''Y'', ''N''] s2 = Inr (user_confirmation, s3)"
      by (auto simp: review_body_def Let_def split: sum.splits)
    from same_files_trans [OF s2 get_user_choice_same_files [OF y]] have "same_files s s3" .
    with assms f w m g True y show ?thesis
      by (cases "user_confirmation = ''Y''") (auto simp: review_body_def Let_def)
  next
    case False
    with assms f w m g s2 show ?thesis
      by (auto simp: review_body_def Let_def split: sum.splits if_splits)
  qed
qed

lemma review_loop_same_files:
  "review_loop all_content quiz_type mistakes_list q_no c r s = Inr (result, s') \<Longrightarrow>
   same_files s s'"
proof (induction all_content quiz_type mistakes_list q_no c r s rule: review_loop.induct)
  case (1 all_content quiz_type mistakes_list q_no c r s)
  show ?case
  proof (cases "q_no < length mistakes_list")
    case False
    with "1.prems" show ?thesis
      by (simp add: review_loop.simps [of _ _ _ q_no] same_files_refl)
  next
    case True
    with "1.prems" obtain out where
      b: "review_body all_content quiz_type mistakes_list q_no c r s = Inr out"
      by (auto simp: review_loop.simps [of _ _ _ q_no] split: sum.splits)
    from review_body_same_files [OF b] have f: "same_files s (iter_world out)" .
    show ?thesis
    proof (cases out)
      case (Return x)
      with "1.prems" True b f show ?thesis
        by (cases x) (simp add: review_loop.simps [of _ _ _ q_no])
    next
      case (Next x)
      obtain q1 c1 r1 s1 where x: "x = ((q1, c1, r1), s1)" by (cases x) auto
      from "1.prems" True b Next x have
        l: "review_loop all_content quiz_type mistakes_list q1 c1 r1 s1 = Inr (result, s')"
        by (simp add: review_loop.simps [of _ _ _ q_no _ _ s])
      from "1.IH" [OF True b [unfolded Next x] refl refl refl refl l] have "same_files s1 s'" .
      with f Next x show ?thesis by (auto intro: same_files_trans)
    qed
  qed
qed

lemma subseq_take_Suc':
  assumes "q < length xs" "subseq r (take q xs)"
  shows "subseq r (take (Suc q) xs)" "subseq (r @ [xs ! q]) (take (Suc q) xs)"
  using subseq_take_Suc [OF assms] by simp_all

lemma review_loop_subseq:
  "review_loop all_content quiz_type mistakes_list q_no c r s = Inr ((c', remaining, b), s') \<Longrightarrow>
   subseq r (take q_no mistakes_list) \<Longrightarrow> subseq remaining mistakes_list"
proof (induction all_content quiz_type mistakes_list q_no c r s rule: review_loop.induct)
  case (1 all_content quiz_type mistakes_list q_no c r s)
  show ?case
  proof (cases "q_no < length mistakes_list")
    case False
    with "1.prems" show ?thesis by (simp add: review_loop.simps [of _ _ _ q_no])
  next
    case True
    with "1.prems"(1) obtain out where
      o: "review_body all_content quiz_type mistakes_list q_no c r s = Inr out"
      by (auto simp: review_loop.simps [of _ _ _ q_no] split: sum.splits)
    from review_body_cases [OF o] show ?thesis
    proof (elim disjE exE conjE)
      fix s1 p options
      assume e: "out = Return ((c, r @ drop q_no mistakes_list, True), s1)"
      from "1.prems"(1) True o e have "remaining = r @ drop q_no mistakes_list"
        by (simp add: review_loop.simps [of _ _ _ q_no])
      moreover have "subseq (r @ drop q_no mistakes_list)
          (take q_no mistakes_list @ drop q_no mistakes_list)"
        using "1.prems"(2) by (intro list_emb_append_mono) simp_all
      ultimately show ?thesis by simp
    next
      fix s1
      assume e: "out = Next ((q_no, c, r), s1)"
      from "1.prems"(1) True o e have
        "review_loop all_content quiz_type mistakes_list q_no c r s1 = Inr ((c', remaining, b), s')"
        by (simp add: review_loop.simps [of _ _ _ q_no _ _ s])
      from "1.IH" [OF True o [unfolded e] refl refl refl refl this "1.prems"(2)] show ?thesis .
    next
      fix s1
      assume e: "out = Next ((q_no + 1, c + 1, r), s1)"
      from "1.prems"(1) True o e have
        "review_loop all_content quiz_type mistakes_list (q_no + 1) (c + 1) r s1 =
           Inr ((c', remaining, b), s')"
        by (simp add: review_loop.simps [of _ _ _ q_no _ _ s])
      moreover have "subseq r (take (q_no + 1) mistakes_list)"
        using subseq_take_Suc(1) [OF True "1.prems"(2)] by simp
      ultimately show ?thesis
        using "1.IH" [OF True o [unfolded e] refl refl refl refl] by blast
    next
      fix s1
      assume e: "out = Next ((q_no + 1, c, r @ [mistakes_list ! q_no]), s1)"
      from "1.prems"(1) True o e have
        "review_loop all_content quiz_type mistakes_list (q_no + 1) c (r @ [mistakes_list ! q_no]) s1 =
           Inr ((c', remaining, b), s')"
        by (simp add: review_loop.simps [of _ _ _ q_no _ _ s])
      moreover have "subseq (r @ [mistakes_list ! q_no]) (take (q_no + 1) mistakes_list)"
        using subseq_take_Suc(2) [OF True "1.prems"(2)] by simp
      ultimately show ?thesis
        using "1.IH" [OF True o [unfolded e] refl refl refl refl] by blast
    qed
  qed
qed

text \<open>
  What every review returns: the list it worked on is a reordering of the list given,
  what remains is a sublist of it in the order of the review, and no file and no clock
  reading was used.
\<close>

lemma run_mistake_review_result:
  assumes "run_mistake_review all_content quiz_type mistakes_list s =
             Inr (((cleared, remaining, b), shuffled), s')"
  shows "mset shuffled = mset mistakes_list \<and> subseq remaining shuffled \<and> same_files s s'"
proof -
  obtain sh s1 where sh: "shuffle mistakes_list s = (sh, s1)"
    by (cases "shuffle mistakes_list s")
  with assms have l: "review_loop all_content quiz_type sh 0 0 [] s1 =
      Inr ((cleared, remaining, b), s')" and e: "shuffled = sh"
    by (auto simp: run_mistake_review_def split: sum.splits)
  from sh have m: "mset sh = mset mistakes_list" using shuffle_mset [of mistakes_list s] by simp
  from shuffle_same_files [of s mistakes_list] sh have "same_files s s1" by simp
  from same_files_trans [OF this review_loop_same_files [OF l]] have "same_files s s'" .
  with m e review_loop_subseq [OF l] show ?thesis by simp
qed

subsection \<open>Adding a list of mistakes\<close>

lemma load_mistakes_same_file:
  "load_mistakes s = Inr (Some ms, s1) \<Longrightarrow> mistake_file s' = mistake_file s \<Longrightarrow>
   load_mistakes s' = Inr (Some ms, s')"
  by (auto simp: load_mistakes_def split: option.splits sum.splits)

lemma upserted_fresh:
  "(w, k) \<notin> set (map key_of ms) \<Longrightarrow>
   upserted w k ca ua now ms = ms @ [new_mistake w k ca ua now]"
  using update_existing_miss [of w k ms ca ua now]
  by (simp add: upserted_def list_ex_same_key)

lemma upt_clock: "map (clock s) [0..<Suc n] = clock s 0 # map (\<lambda>i. clock s (Suc i)) [0..<n]"
  by (simp add: upt_conv_Cons map_Suc_upt [symmetric] del: upt_Suc)

lemma add_mistakes_fresh:
  "load_mistakes s = Inr (Some ms, s) \<Longrightarrow> distinct (map key_of rs) \<Longrightarrow>
   \<forall>r \<in> set rs. key_of r \<notin> set (map key_of ms) \<Longrightarrow>
   \<exists>s'. add_mistakes rs s = Inr s' \<and>
     load_mistakes s' =
       Inr (Some (ms @ map2 (\<lambda>r now. new_mistake (word r) (kana r) (correct_answer r)
                                         (user_answer r) now)
                         rs (map (clock s) [0..<length rs])), s') \<and>
     stdin s' = stdin s"
proof (induction rs arbitrary: s ms)
  case Nil
  then show ?case by simp
next
  case (Cons r rs)
  let ?n = "new_mistake (word r) (kana r) (correct_answer r) (user_answer r) (clock s 0)"
  let ?s1 = "writerows (ms @ [?n]) (s\<lparr>clock := (\<lambda>n. clock s (Suc n))\<rparr>)"
  from Cons.prems(3) have "(word r, kana r) \<notin> set (map key_of ms)"
    by (simp add: key_of_def)
  from upserted_fresh [OF this] add_mistake_loaded [OF Cons.prems(1)]
  have a: "add_mistake (word r) (kana r) (correct_answer r) (user_answer r) s = Inr ?s1"
    by simp
  have l: "load_mistakes ?s1 = Inr (Some (ms @ [?n]), ?s1)" by (rule load_mistakes_written)
  have k: "key_of ?n = key_of r" by (simp add: key_of_def new_mistake_def)
  have f: "\<forall>r' \<in> set rs. key_of r' \<notin> set (map key_of (ms @ [?n]))"
  proof
    fix r'
    assume m: "r' \<in> set rs"
    with Cons.prems(2) have "key_of r' \<noteq> key_of r" by (auto simp: image_iff)
    with Cons.prems(3) m k show "key_of r' \<notin> set (map key_of (ms @ [?n]))" by simp
  qed
  from Cons.prems(2) have d: "distinct (map key_of rs)" by simp
  from Cons.IH [OF l d f] obtain s' where
    r: "add_mistakes rs ?s1 = Inr s'"
       "load_mistakes s' =
          Inr (Some ((ms @ [?n]) @ map2 (\<lambda>r now. new_mistake (word r) (kana r) (correct_answer r)
                                         (user_answer r) now)
                         rs (map (clock ?s1) [0..<length rs])), s')"
       "stdin s' = stdin ?s1" by blast
  have c: "map (clock ?s1) [0..<length rs] = map (\<lambda>i. clock s (Suc i)) [0..<length rs]"
    by (simp add: writerows_def)
  from a r(1) have "add_mistakes (r # rs) s = Inr s'" by simp
  moreover from r(2) c have "load_mistakes s' =
       Inr (Some (ms @ map2 (\<lambda>r now. new_mistake (word r) (kana r) (correct_answer r)
                                         (user_answer r) now)
                         (r # rs) (map (clock s) [0..<length (r # rs)])), s')"
    by (simp add: upt_clock del: upt_Suc)
  moreover from r(3) have "stdin s' = stdin s" by (simp add: writerows_def)
  ultimately show ?case by blast
qed

subsection \<open>run\_mistake\_practice\<close>

lemma load_all_levels_state:
  "load_all_levels levels acc s = Inr (r, s') \<Longrightarrow> s' = s"
  by (induction levels acc s rule: load_all_levels.induct)
     (auto simp: load_jlpt_vocab_def split: option.splits prod.splits)

lemma press_enter_line:
  "stdin s \<noteq> [] \<Longrightarrow> press_enter s = Inr (s\<lparr>stdin := tl (stdin s)\<rparr>)"
  by (cases "stdin s") (simp_all add: press_enter_def input_def)

lemma distinct_keys_subseq:
  assumes "distinct (map key_of ms)" "mset shuffled = mset ms" "subseq remaining shuffled"
  shows "distinct (map key_of remaining)"
proof -
  from assms(2) have "mset (map key_of shuffled) = mset (map key_of ms)" by (metis mset_map)
  with assms(1) have "distinct (map key_of shuffled)" by (metis mset_eq_imp_distinct_iff)
  moreover from assms(3) have "subseq (map key_of remaining) (map key_of shuffled)"
    by (rule subseq_map)
  ultimately show ?thesis using subseqs_distinctD [of "map key_of remaining" "map key_of shuffled"] by simp
qed

text \<open>
  A world for a practice session: the five level files, with the rows of \<open>animals\<close> in
  the first, a mistake file with the given rows, and the lines the user will type.
\<close>

definition level_files :: "(string \<times> row list) list" where
  "level_files = [(''data/jlpt_n5.csv'', animals), (''data/jlpt_n4.csv'', []),
     (''data/jlpt_n3.csv'', []), (''data/jlpt_n2.csv'', []), (''data/jlpt_n1.csv'', [])]"

definition practice_world :: "string Mistake list \<Rightarrow> string list \<Rightarrow> world" where
  "practice_world rows lines = (quiz_world level_files lines)\<lparr>mistake_file := Some rows\<rparr>"

text \<open>
  C7, as the code has it. The practice session loads the store (here: it loads, and is
  not empty), loads the five levels and runs the review. When the review returns with an
  early quit, the store is what it was. When it returns without, the store is rebuilt:
  cleared, then every remaining mistake added anew. With the keys (word, kana) of the
  stored rows pairwise different, the store afterwards holds exactly the remaining
  mistakes in the order of the review, each with its word, kana, correct answer and user
  answer, the count 1 whatever it was before, and as date the clock reading at which
  it was added. (One more line is read at the end, by the final \<^verbatim>\<open>input\<close>.)
\<close>

theorem practice_rebuilds_store:
  assumes "load_mistakes s = Inr (Some all_mistakes, s1)" and "all_mistakes \<noteq> []"
    and "load_all_levels LEVELS [] s1 = Inr (all_jlpt_vocab, s2)"
    and "run_mistake_review all_jlpt_vocab ''jlpt'' all_mistakes s2 =
           Inr (((cleared, remaining, user_quit_early), shuffled), s3)"
    and "distinct (map key_of all_mistakes)"
    and "stdin s3 \<noteq> []"
  shows "\<exists>s'. run_mistake_practice s = Inr s' \<and>
     load_mistakes s' =
       Inr (Some (if user_quit_early then all_mistakes
                  else map2 (\<lambda>m now. \<lparr>word = word m, kana = kana m,
                                        correct_answer = correct_answer m,
                                        user_answer = user_answer m,
                                        mistake_count = 1, last_mistake_date = now\<rparr>)
                         remaining (map (clock s) [0..<length remaining])), s')"
proof -
  from load_mistakes_Some [OF assms(1)] have s1: "s1 = s" by simp
  from load_all_levels_state [OF assms(3)] have s2: "s2 = s1" .
  from run_mistake_review_result [OF assms(4)] have
    m: "mset shuffled = mset all_mistakes" and q: "subseq remaining shuffled"
    and f: "same_files s2 s3" by simp_all
  from f s1 s2 have mf: "mistake_file s3 = mistake_file s" and ck: "clock s3 = clock s"
    by (simp_all add: same_files_def)
  obtain a rest where ne: "all_mistakes = a # rest" using assms(2) by (cases all_mistakes) auto
  show ?thesis
  proof (cases user_quit_early)
    case True
    let ?s' = "s3\<lparr>stdin := tl (stdin s3)\<rparr>"
    have "run_mistake_practice s = Inr ?s'"
      using assms(1,3,4) ne True press_enter_line [OF assms(6)] s1 s2
      by (simp add: run_mistake_practice_def)
    moreover have "load_mistakes ?s' = Inr (Some all_mistakes, ?s')"
      using assms(1) mf by (intro load_mistakes_same_file [of s _ s1]) simp_all
    ultimately show ?thesis using True by auto
  next
    case False
    let ?r = "s3\<lparr>mistake_file := Some []\<rparr>"
    have r: "reset_mistakes s3 = (True, ?r)"
      by (simp add: reset_mistakes_def load_mistakes_def)
    have l: "load_mistakes ?r = Inr (Some [], ?r)" by (simp add: load_mistakes_def)
    have d: "distinct (map key_of remaining)"
      using distinct_keys_subseq [OF assms(5) m q] .
    from add_mistakes_fresh [OF l d] obtain s4 where
      a: "add_mistakes remaining ?r = Inr s4"
      and b: "load_mistakes s4 =
         Inr (Some ([] @ map2 (\<lambda>r now. new_mistake (word r) (kana r) (correct_answer r)
                                         (user_answer r) now)
                         remaining (map (clock ?r) [0..<length remaining])), s4)"
      and i: "stdin s4 = stdin ?r" by auto
    let ?s' = "s4\<lparr>stdin := tl (stdin s4)\<rparr>"
    from i assms(6) have "press_enter s4 = Inr ?s'" by (intro press_enter_line) simp
    then have "run_mistake_practice s = Inr ?s'"
      using assms(1,3,4) ne False r a s1 s2 by (simp add: run_mistake_practice_def)
    moreover have "load_mistakes ?s' =
         Inr (Some (map2 (\<lambda>r now. new_mistake (word r) (kana r) (correct_answer r)
                                         (user_answer r) now)
                         remaining (map (clock s) [0..<length remaining])), ?s')"
      using load_mistakes_same_file [OF b, of ?s'] ck by simp
    ultimately show ?thesis using False by (auto simp: new_mistake_def)
  qed
qed

theorem practice_rebuilds_store_witness:
  "load_mistakes (practice_world [neko\<lparr>mistake_count := ''3''\<rparr>] [''a'', '''']) =
     Inr (Some [\<lparr>word = ''neko'', kana = ''ne-ko'', correct_answer = ''cat'',
                 user_answer = ''dog'', mistake_count = 3,
                 last_mistake_date = ''25-05-01 10:00:00''\<rparr>],
          practice_world [neko\<lparr>mistake_count := ''3''\<rparr>] [''a'', '''']) \<and>
   (\<exists>s'. run_mistake_practice (practice_world [neko\<lparr>mistake_count := ''3''\<rparr>] [''a'', '''']) =
          Inr s' \<and>
      load_mistakes s' =
        Inr (Some [\<lparr>word = ''neko'', kana = ''ne-ko'', correct_answer = ''cat'',
                    user_answer = ''dog'', mistake_count = 1,
                    last_mistake_date = ''25-06-01 12:00:00''\<rparr>], s'))"
proof -
  let ?w = "practice_world [neko\<lparr>mistake_count := ''3''\<rparr>] [''a'', '''']"
  let ?n = "\<lparr>word = ''neko'', kana = ''ne-ko'', correct_answer = ''cat'',
             user_answer = ''dog'', mistake_count = 3::int,
             last_mistake_date = ''25-05-01 10:00:00''\<rparr>"
  have l: "load_mistakes ?w = Inr (Some [?n], ?w)"
    by (simp add: load_mistakes_def practice_world_def quiz_world_def neko_def numeral_simps)
  have v: "load_all_levels LEVELS [] ?w = Inr (animals, ?w)"
    by (simp add: LEVELS_def load_jlpt_vocab_def JLPT_FILES_def practice_world_def
        quiz_world_def level_files_def)
  have "map_sum id (\<lambda>(r, s). (r, stdin s)) (run_mistake_review animals ''jlpt'' [?n] ?w) =
      Inr (((0, [?n], False), [?n]), [''''])"
    by code_simp
  then obtain s3 where
    r: "run_mistake_review animals ''jlpt'' [?n] ?w = Inr (((0, [?n], False), [?n]), s3)"
    and i: "stdin s3 = ['''']"
    by (cases "run_mistake_review animals ''jlpt'' [?n] ?w") auto
  have d: "distinct (map key_of [?n])" by simp
  have c: "clock ?w 0 = ''25-06-01 12:00:00''"
    by (simp add: practice_world_def quiz_world_def)
  from i have ne: "stdin s3 \<noteq> []" by simp
  from practice_rebuilds_store [OF l _ v r d ne] c
  have "\<exists>s'. run_mistake_practice ?w = Inr s' \<and>
      load_mistakes s' =
        Inr (Some [\<lparr>word = ''neko'', kana = ''ne-ko'', correct_answer = ''cat'',
                    user_answer = ''dog'', mistake_count = 1,
                    last_mistake_date = ''25-06-01 12:00:00''\<rparr>], s')"
    by simp
  with l show ?thesis by blast
qed

text \<open>
  C7 as stated fails. The store holds \<open>neko\<close> with count 3; in the practice session the
  user gives a wrong answer (\<open>A\<close> is \<open>bird\<close>), so the mistake remains, and presses
  Enter. The row is then in the file with count 1 and the date of the session, not with
  its prior count.
\<close>

theorem practice_resets_count:
  "mistake_file (practice_world [neko\<lparr>mistake_count := ''3''\<rparr>] [''a'', '''']) =
     Some [\<lparr>word = ''neko'', kana = ''ne-ko'', correct_answer = ''cat'', user_answer = ''dog'',
             mistake_count = ''3'', last_mistake_date = ''25-05-01 10:00:00''\<rparr>] \<and>
   map_sum id (\<lambda>s'. (mistake_file s', stdout s'))
     (run_mistake_practice (practice_world [neko\<lparr>mistake_count := ''3''\<rparr>] [''a'', ''''])) =
     Inr (Some [\<lparr>word = ''neko'', kana = ''ne-ko'', correct_answer = ''cat'',
                 user_answer = ''dog'', mistake_count = ''1'',
                 last_mistake_date = ''25-06-01 12:00:00''\<rparr>],
          [ReviewQuestion 1 ''neko'' [''bird'', ''cow'', ''dog'', ''cat'']])"
  by code_simp

end
